theory Spec2Isabelle
  imports Complex_Main
begin

section \<open>Numbers, errors and the library functions of \<open>math\<close>\<close>

text \<open>
  Python floats are modelled as real numbers and every arithmetic operation as the exact
  one; rounding is not modelled. The thresholds of the source (\<open>1e-6\<close>, \<open>1e-9\<close>) are
  kept as the rationals they denote. An exception is a value of type \<open>error\<close>.
\<close>

datatype error = AssertionError | ValueError | IndexError | TypeError | ZeroDivisionError

text \<open>\<open>math.isclose(a, b)\<close> with its default tolerances \<open>rel_tol = 1e-09\<close>, \<open>abs_tol = 0.0\<close>.\<close>

definition isclose :: "real \<Rightarrow> real \<Rightarrow> bool" where
  "isclose a b \<longleftrightarrow> \<bar>a - b\<bar> \<le> max (1 / 10 ^ 9 * max \<bar>a\<bar> \<bar>b\<bar>) 0"

text \<open>\<open>math.hypot(x, y)\<close>.\<close>

definition hypot :: "real \<Rightarrow> real \<Rightarrow> real" where
  "hypot x y = sqrt (x ^ 2 + y ^ 2)"

text \<open>\<open>math.atan2(y, x)\<close>: the angle in \<open>(-pi, pi]\<close> of the point \<open>(x, y)\<close>, and 0 at the origin.\<close>

definition atan2 :: "real \<Rightarrow> real \<Rightarrow> real" where
  "atan2 y x =
     (if 0 < x then arctan (y / x)
      else if x < 0 then (if 0 \<le> y then arctan (y / x) + pi else arctan (y / x) - pi)
      else if 0 < y then pi / 2
      else if y < 0 then - (pi / 2)
      else 0)"

section \<open>Rotation2d\<close>

text \<open>
  The fields \<open>value\<close>, \<open>cos\<close> and \<open>sin\<close> of the source carry the suffix \<open>_r\<close> here.
  \<open>__init__(self, *args)\<close> has three call shapes, one function each: no argument
  (\<open>Rotation2d_zero\<close>), one radian value (\<open>Rotation2d_value\<close>), and the two components
  x and y (\<open>Rotation2d_xy\<close>).
\<close>

record Rotation2d =
  value_r :: real
  cos_r :: real
  sin_r :: real

definition Rotation2d_zero :: Rotation2d where
  "Rotation2d_zero = \<lparr>value_r = 0, cos_r = 1, sin_r = 0\<rparr>"

definition Rotation2d_value :: "real \<Rightarrow> Rotation2d" where
  "Rotation2d_value v = \<lparr>value_r = v, cos_r = cos v, sin_r = sin v\<rparr>"

definition Rotation2d_xy :: "real \<Rightarrow> real \<Rightarrow> Rotation2d" where
  "Rotation2d_xy x y =
     (let magnitude = hypot x y;
          s = (if magnitude > 1 / 10 ^ 6 then y / magnitude else 0);
          c = (if magnitude > 1 / 10 ^ 6 then x / magnitude else 1)
      in \<lparr>value_r = atan2 s c, cos_r = c, sin_r = s\<rparr>)"

text \<open>\<open>__add__\<close>, \<open>__neg__\<close>, \<open>__sub__\<close>, \<open>__mul__\<close>, \<open>__eq__\<close> and \<open>getRadians\<close>.\<close>

definition rot_add :: "Rotation2d \<Rightarrow> Rotation2d \<Rightarrow> Rotation2d" where
  "rot_add a b =
     Rotation2d_xy (cos_r a * cos_r b - sin_r a * sin_r b)
                   (cos_r a * sin_r b + sin_r a * cos_r b)"

definition rot_neg :: "Rotation2d \<Rightarrow> Rotation2d" where
  "rot_neg a = Rotation2d_value (- value_r a)"

definition rot_sub :: "Rotation2d \<Rightarrow> Rotation2d \<Rightarrow> Rotation2d" where
  "rot_sub a b = rot_add a (rot_neg b)"

definition rot_mul :: "Rotation2d \<Rightarrow> real \<Rightarrow> Rotation2d" where
  "rot_mul a k = Rotation2d_value (value_r a * k)"


definition getRadians :: "Rotation2d \<Rightarrow> real" where
  "getRadians a = value_r a"

text \<open>
  The three consistency conditions of a rotation's stored triple. The first two are what
  every constructor establishes; the third holds only for a normalised angle.
\<close>

definition trig_consistent :: "Rotation2d \<Rightarrow> bool" where
  "trig_consistent r \<longleftrightarrow> cos_r r = cos (value_r r) \<and> sin_r r = sin (value_r r)"

definition angle_normalised :: "Rotation2d \<Rightarrow> bool" where
  "angle_normalised r \<longleftrightarrow> value_r r = atan2 (sin_r r) (cos_r r)"

text \<open>
  The rotations a program can hold: every \<open>Rotation2d\<close> comes out of \<open>__init__\<close> (the class
  is frozen), directly or through an operator.
\<close>

inductive constructed :: "Rotation2d \<Rightarrow> bool" where
  c_zero: "constructed Rotation2d_zero"
| c_value: "constructed (Rotation2d_value v)"
| c_xy: "constructed (Rotation2d_xy x y)"
| c_add: "constructed a \<Longrightarrow> constructed b \<Longrightarrow> constructed (rot_add a b)"
| c_neg: "constructed a \<Longrightarrow> constructed (rot_neg a)"
| c_sub: "constructed a \<Longrightarrow> constructed b \<Longrightarrow> constructed (rot_sub a b)"
| c_mul: "constructed a \<Longrightarrow> constructed (rot_mul a k)"

section \<open>Translation2d\<close>

text \<open>The fields \<open>x\<close> and \<open>y\<close> of the source are \<open>x_t\<close> and \<open>y_t\<close> here.\<close>

record Translation2d =
  x_t :: real
  y_t :: real

definition Translation2d_init :: "real \<Rightarrow> real \<Rightarrow> Translation2d" where
  "Translation2d_init x y = \<lparr>x_t = x, y_t = y\<rparr>"

definition identity_translation :: Translation2d where
  "identity_translation = Translation2d_init 0 0"

definition rotateBy :: "Translation2d \<Rightarrow> Rotation2d \<Rightarrow> Translation2d" where
  "rotateBy t other =
     Translation2d_init (x_t t * cos_r other - y_t t * sin_r other)
                        (x_t t * sin_r other + y_t t * cos_r other)"

definition tr_add :: "Translation2d \<Rightarrow> Translation2d \<Rightarrow> Translation2d" where
  "tr_add a b = Translation2d_init (x_t a + x_t b) (y_t a + y_t b)"



definition tr_eq :: "Translation2d \<Rightarrow> Translation2d \<Rightarrow> bool" where
  "tr_eq a b \<longleftrightarrow> isclose (x_t a) (x_t b) \<and> isclose (y_t a) (y_t b)"

definition getDistance :: "Translation2d \<Rightarrow> Translation2d \<Rightarrow> real" where
  "getDistance a b = hypot (x_t b - x_t a) (y_t b - y_t a)"

section \<open>Twist2d, Transform2d and Pose2d\<close>

record Twist2d =
  dx :: real
  dy :: real
  dtheta :: real

text \<open>Both classes have the fields \<open>translation\<close> and \<open>rotation\<close>; the transform's carry \<open>_tf\<close>.\<close>

record Transform2d =
  translation_tf :: Translation2d
  rotation_tf :: Rotation2d

record Pose2d =
  translation :: Translation2d
  rotation :: Rotation2d

definition Pose2d_zero :: Pose2d where
  "Pose2d_zero = \<lparr>translation = Translation2d_init 0 0, rotation = Rotation2d_zero\<rparr>"

text \<open>\<open>Pose2d.__add__\<close> (a pose and a transform) and \<open>Pose2d.__sub__\<close> (two poses).\<close>

definition pose_add :: "Pose2d \<Rightarrow> Transform2d \<Rightarrow> Pose2d" where
  "pose_add p other =
     \<lparr>translation = tr_add (translation p) (rotateBy (translation_tf other) (rotation p)),
      rotation = rot_add (rotation p) (rotation_tf other)\<rparr>"



definition exp_pose :: "Pose2d \<Rightarrow> Twist2d \<Rightarrow> Pose2d" where
  "exp_pose p twist =
     (let sin_theta = sin (dtheta twist);
          cos_theta = cos (dtheta twist);
          s = (if \<bar>dtheta twist\<bar> < 1 / 10 ^ 9 then 1 - 1 / 6 * dtheta twist ^ 2
               else sin_theta / dtheta twist);
          c = (if \<bar>dtheta twist\<bar> < 1 / 10 ^ 9 then 1 / 2 * dtheta twist
               else (1 - cos_theta) / dtheta twist);
          transform =
            \<lparr>translation_tf =
               Translation2d_init (dx twist * s - dy twist * c) (dx twist * c + dy twist * s),
             rotation_tf = Rotation2d_xy cos_theta sin_theta\<rparr>
      in pose_add p transform)"


section \<open>ChassisSpeeds\<close>

record ChassisSpeeds =
  vx :: real
  vy :: real
  omega :: real

definition fromFieldRelativeSpeeds :: "real \<Rightarrow> real \<Rightarrow> real \<Rightarrow> Rotation2d \<Rightarrow> ChassisSpeeds" where
  "fromFieldRelativeSpeeds fvx fvy om robotAngle =
     \<lparr>vx = fvx * cos_r robotAngle + fvy * sin_r robotAngle,
      vy = - fvx * sin_r robotAngle + fvy * cos_r robotAngle,
      omega = om\<rparr>"

section \<open>Arrays\<close>

text \<open>
  A one-dimensional numpy array is a list of reals and a two-dimensional one the list of
  its rows. \<open>M @ v\<close> is \<open>matvec\<close>, \<open>M[i, j] = v\<close> is \<open>set_entry\<close> and \<open>a.reshape(-1, 2)\<close>
  is \<open>reshape2\<close>; each raises where numpy does.
\<close>

type_synonym vec = "real list"
type_synonym matrix = "real list list"

definition dot :: "vec \<Rightarrow> vec \<Rightarrow> real" where
  "dot xs ys = sum_list (map2 (*) xs ys)"

definition matvec :: "matrix \<Rightarrow> vec \<Rightarrow> error + vec" where
  "matvec M v =
     (if list_all (\<lambda>row. length row = length v) M then Inr (map (\<lambda>row. dot row v) M)
      else Inl ValueError)"

definition set_entry :: "matrix \<Rightarrow> nat \<Rightarrow> nat \<Rightarrow> real \<Rightarrow> error + matrix" where
  "set_entry M i j v =
     (if i < length M \<and> j < length (M ! i) then Inr (M[i := (M ! i)[j := v]])
      else Inl IndexError)"

fun reshape2 :: "vec \<Rightarrow> error + (real \<times> real) list" where
  "reshape2 [] = Inr []"
| "reshape2 [x] = Inl ValueError"
| "reshape2 (x # y # rest) =
     (case reshape2 rest of Inl e \<Rightarrow> Inl e | Inr ps \<Rightarrow> Inr ((x, y) # ps))"

subsection \<open>The pseudoinverse\<close>

text \<open>
  \<open>numpy.linalg.pinv\<close> is library code, modelled from its documentation, in exact
  arithmetic. It takes the singular value decomposition of its argument, sets to zero every
  singular value that is not greater than \<open>rcond\<close> times the largest one (\<open>rcond\<close> has the
  default \<open>1e-15\<close>), and returns the Moore-Penrose pseudoinverse of what is left. The model
  has the same three steps: \<open>singular\<close>, \<open>zero_small\<close> and \<open>pseudo_inverse\<close>.

  \<open>pseudo_inverse\<close> builds the Moore-Penrose pseudoinverse column by column (Greville's
  recursion). With \<open>P\<close> the pseudoinverse of the columns seen so far and \<open>a\<close> the
  next column, \<open>d = P a\<close>, \<open>c\<close> is the part of \<open>a\<close> outside the span of the earlier columns,
  and the new last row \<open>b\<close> is \<open>c / (c . c)\<close> when \<open>c\<close> is not zero and
  \<open>d\<^sup>T P / (1 + d . d)\<close> otherwise; every earlier row \<open>j\<close> loses \<open>d\<^sub>j b\<close>.
  \<open>is_pinv\<close> states the four Penrose conditions, which determine the pseudoinverse;
  \<open>pseudo_inverse\<close> meets them on every matrix whose rows have one positive length
  (\<open>pseudo_inverse_penrose\<close>).
\<close>

definition vadd :: "vec \<Rightarrow> vec \<Rightarrow> vec" where
  "vadd xs ys = map2 (+) xs ys"

definition vsub :: "vec \<Rightarrow> vec \<Rightarrow> vec" where
  "vsub xs ys = map2 (-) xs ys"

definition vscale :: "real \<Rightarrow> vec \<Rightarrow> vec" where
  "vscale k xs = map ((*) k) xs"

fun lincomb :: "nat \<Rightarrow> real list \<Rightarrow> vec list \<Rightarrow> vec" where
  "lincomb m (d # ds) (v # vs) = vadd (vscale d v) (lincomb m ds vs)"
| "lincomb m _ _ = replicate m 0"

definition columns :: "matrix \<Rightarrow> vec list" where
  "columns M =
     (case M of [] \<Rightarrow> [] | r # _ \<Rightarrow> map (\<lambda>j. map (\<lambda>row. row ! j) M) [0..<length r])"

definition greville_step :: "nat \<Rightarrow> vec list \<times> matrix \<Rightarrow> vec \<Rightarrow> vec list \<times> matrix" where
  "greville_step m st a =
     (let cols = fst st; P = snd st;
          d = map (\<lambda>row. dot row a) P;
          c = vsub a (lincomb m d cols);
          b = (if dot c c \<noteq> 0 then vscale (1 / dot c c) c
               else vscale (1 / (1 + dot d d)) (lincomb m d P))
      in (cols @ [a], map2 (\<lambda>row dj. vsub row (vscale dj b)) P d @ [b]))"

definition pseudo_inverse :: "matrix \<Rightarrow> matrix" where
  "pseudo_inverse M = snd (foldl (greville_step (length M)) ([], []) (columns M))"

text \<open>
  The singular values. The program gives \<open>pinv\<close> one kind of matrix only, the
  inverse-kinematics matrix of the constructor, whose rows come in pairs \<open>[1, 0, u]\<close>,
  \<open>[0, 1, v]\<close>. With \<open>c1\<close>, \<open>c2\<close>, \<open>c3\<close> its columns, \<open>n = c1 . c1 = c2 . c2\<close>,
  \<open>a = c1 . c3\<close>, \<open>b = c2 . c3\<close> and \<open>q = c3 . c3\<close>, the matrix \<open>M\<^sup>T M\<close> is

  \<^verbatim>\<open>    n 0 a\<close>

  \<^verbatim>\<open>    0 n b\<close>

  \<^verbatim>\<open>    a b q\<close>

  and its eigenvalues and eigenvectors have a closed form. \<open>singular M\<close> lists them: each
  entry is the square of a singular value of \<open>M\<close> with a right singular vector for it,
  which is not normalised; the three vectors are orthogonal to each other
  (\<open>singular_ik_eigen\<close>, \<open>singular_ik_orthogonal\<close>). For a matrix that does not have
  three columns, which the program never passes, the list is empty.
\<close>

definition singular :: "matrix \<Rightarrow> (real \<times> vec) list" where
  "singular M =
     (case columns M of
        [c1, c2, c3] \<Rightarrow>
          (let n = dot c1 c1; a = dot c1 c3; b = dot c2 c3; q = dot c3 c3
           in if a = 0 \<and> b = 0 then [(n, [1, 0, 0]), (n, [0, 1, 0]), (q, [0, 0, 1])]
              else
                (let D = sqrt ((q - n) ^ 2 + 4 * (a ^ 2 + b ^ 2));
                     zp = ((q - n) + D) / 2;
                     zm = ((q - n) - D) / 2
                 in [(n + zp, [a, b, zp]), (n, [b, - a, 0]), (n + zm, [a, b, zm])]))
      | _ \<Rightarrow> [])"

text \<open>
  The cutoff. A singular value \<open>s\<close> is set to zero when \<open>s \<le> rcond * largest\<close>; both sides
  are non-negative, so the squares are compared. A singular value that is zero already is
  left alone.
\<close>

definition rcond :: real where
  "rcond = 1 / 10 ^ 15"

definition small_singular :: "matrix \<Rightarrow> (real \<times> vec) list" where
  "small_singular M =
     (let sv = singular M; largest = foldl max 0 (map fst sv)
      in filter (\<lambda>(lam, w). 0 < lam \<and> lam \<le> rcond ^ 2 * largest) sv)"

text \<open>
  Setting the singular value that belongs to the right singular vector \<open>w\<close> to zero takes
  \<open>(M w) w\<^sup>T / (w . w)\<close> off the matrix: every row loses its component along \<open>w\<close>
  (\<open>zero_small_singular\<close>).
\<close>

definition zero_small :: "matrix \<Rightarrow> matrix" where
  "zero_small M =
     map (\<lambda>row. foldl (\<lambda>acc (lam, w). vsub acc (vscale (dot row w / dot w w) w)) row
                   (small_singular M)) M"

definition pinv :: "matrix \<Rightarrow> matrix" where
  "pinv M = pseudo_inverse (zero_small M)"

text \<open>No singular value is cut off: \<open>pinv\<close> is the Moore-Penrose pseudoinverse itself.\<close>

definition well_conditioned :: "matrix \<Rightarrow> bool" where
  "well_conditioned M \<longleftrightarrow> small_singular M = []"

text \<open>\<open>M v\<close> and \<open>M\<^sup>T M v\<close> without the shape check of \<open>matvec\<close>.\<close>

definition apply_m :: "matrix \<Rightarrow> vec \<Rightarrow> vec" where
  "apply_m M v = map (\<lambda>row. dot row v) M"

definition gram_apply :: "matrix \<Rightarrow> vec \<Rightarrow> vec" where
  "gram_apply M v = map (\<lambda>col. dot col (apply_m M v)) (columns M)"

definition matmul :: "matrix \<Rightarrow> matrix \<Rightarrow> matrix" where
  "matmul A B = map (\<lambda>row. map (\<lambda>col. dot row col) (columns B)) A"

definition is_pinv :: "matrix \<Rightarrow> matrix \<Rightarrow> bool" where
  "is_pinv A X \<longleftrightarrow>
     matmul (matmul A X) A = A \<and> matmul (matmul X A) X = X \<and>
     columns (matmul A X) = matmul A X \<and> columns (matmul X A) = matmul X A"

section \<open>SwerveModuleState and SwerveDriveKinematics\<close>

record SwerveModuleState =
  speed :: real
  angle :: Rotation2d

text \<open>The slots \<open>_inverse_kinematics\<close> and \<open>_prev_cor\<close> lose their leading underscore.\<close>

record SwerveDriveKinematics =
  modules :: "Translation2d list"
  num_modules :: nat
  inverse_kinematics :: matrix
  forward_kinematics :: matrix
  prev_cor :: Translation2d

text \<open>The loop of \<open>__init__\<close> over \<open>enumerate(wheels)\<close>, from index \<open>i\<close> on.\<close>

fun init_rows :: "nat \<Rightarrow> Translation2d list \<Rightarrow> matrix \<Rightarrow> error + matrix" where
  "init_rows i [] M = Inr M"
| "init_rows i (wheel # rest) M =
     (case set_entry M (2 * i) 2 (- y_t wheel) of
        Inl e \<Rightarrow> Inl e
      | Inr M1 \<Rightarrow>
          (case set_entry M1 (2 * i + 1) 2 (x_t wheel) of
             Inl e \<Rightarrow> Inl e
           | Inr M2 \<Rightarrow> init_rows (i + 1) rest M2))"

definition SwerveDriveKinematics_init :: "Translation2d list \<Rightarrow> error + SwerveDriveKinematics" where
  "SwerveDriveKinematics_init wheels =
     (if \<not> length wheels \<ge> 2 then Inl AssertionError
      else
        (case init_rows 0 wheels (concat (replicate (length wheels) [[1, 0, 0], [0, 1, 0]])) of
           Inl e \<Rightarrow> Inl e
         | Inr ik \<Rightarrow>
             Inr \<lparr>modules = wheels, num_modules = length wheels, inverse_kinematics = ik,
                  forward_kinematics = pinv ik, prev_cor = identity_translation\<rparr>))"

text \<open>The loop of \<open>toSwerveModuleStates\<close> over \<open>enumerate(self.modules)\<close>.\<close>

fun cor_rows :: "real \<Rightarrow> real \<Rightarrow> nat \<Rightarrow> Translation2d list \<Rightarrow> matrix \<Rightarrow> error + matrix" where
  "cor_rows cor_x cor_y i [] M = Inr M"
| "cor_rows cor_x cor_y i (wheel # rest) M =
     (case set_entry M (2 * i) 2 (- y_t wheel + cor_y) of
        Inl e \<Rightarrow> Inl e
      | Inr M1 \<Rightarrow>
          (case set_entry M1 (2 * i + 1) 2 (x_t wheel - cor_x) of
             Inl e \<Rightarrow> Inl e
           | Inr M2 \<Rightarrow> cor_rows cor_x cor_y (i + 1) rest M2))"

text \<open>
  \<open>toSwerveModuleStates\<close> mutates the kinematics object and returns the list of states;
  the model returns both. The guard \<open>prev_cor is not centerOfRotation and prev_cor !=
  centerOfRotation\<close> is \<open>\<not> tr_eq\<close>: an object is \<open>isclose\<close> to itself.
\<close>

definition toSwerveModuleStates ::
  "SwerveDriveKinematics \<Rightarrow> ChassisSpeeds \<Rightarrow> Translation2d \<Rightarrow>
     error + (SwerveModuleState list \<times> SwerveDriveKinematics)" where
  "toSwerveModuleStates k chassisSpeeds centerOfRotation =
     (case (if \<not> tr_eq (prev_cor k) centerOfRotation
            then (case cor_rows (x_t centerOfRotation) (y_t centerOfRotation) 0 (modules k)
                         (inverse_kinematics k) of
                    Inl e \<Rightarrow> Inl e
                  | Inr ik \<Rightarrow> Inr (k\<lparr>inverse_kinematics := ik, prev_cor := centerOfRotation\<rparr>))
            else Inr k) of
        Inl e \<Rightarrow> Inl e
      | Inr k' \<Rightarrow>
          (case matvec (inverse_kinematics k')
                  [vx chassisSpeeds, vy chassisSpeeds, omega chassisSpeeds] of
             Inl e \<Rightarrow> Inl e
           | Inr module_states \<Rightarrow>
               (case reshape2 module_states of
                  Inl e \<Rightarrow> Inl e
                | Inr ps \<Rightarrow>
                    Inr (map (\<lambda>(x, y). \<lparr>speed = hypot x y, angle = Rotation2d_xy x y\<rparr>) ps,
                         k'))))"

text \<open>\<open>ChassisSpeeds(*v)\<close>: a named tuple of three fields, each with default 0.\<close>

definition ChassisSpeeds_of :: "vec \<Rightarrow> error + ChassisSpeeds" where
  "ChassisSpeeds_of v =
     (case v of
        [] \<Rightarrow> Inr \<lparr>vx = 0, vy = 0, omega = 0\<rparr>
      | [a] \<Rightarrow> Inr \<lparr>vx = a, vy = 0, omega = 0\<rparr>
      | [a, b] \<Rightarrow> Inr \<lparr>vx = a, vy = b, omega = 0\<rparr>
      | [a, b, c] \<Rightarrow> Inr \<lparr>vx = a, vy = b, omega = c\<rparr>
      | _ \<Rightarrow> Inl TypeError)"

definition toChassisSpeeds :: "SwerveDriveKinematics \<Rightarrow> SwerveModuleState list \<Rightarrow> error + ChassisSpeeds" where
  "toChassisSpeeds k wheel_states =
     (if length wheel_states \<noteq> num_modules k then Inl AssertionError
      else
        (case matvec (forward_kinematics k)
                (concat (map (\<lambda>wheel. [speed wheel * cos_r (angle wheel),
                                         speed wheel * sin_r (angle wheel)]) wheel_states)) of
           Inl e \<Rightarrow> Inl e
         | Inr chassis_vel_vec \<Rightarrow> ChassisSpeeds_of chassis_vel_vec))"

text \<open>
  \<open>max\<close> of a generator raises \<open>ValueError\<close> when there is nothing to take the maximum of.
\<close>

fun py_max :: "real list \<Rightarrow> error + real" where
  "py_max [] = Inl ValueError"
| "py_max (x # xs) = Inr (foldl max x xs)"

text \<open>
  \<open>normalizeWheelSpeeds\<close> mutates the states of the list in place; the model returns the
  list after the call, for a list of distinct objects.
\<close>

definition normalizeWheelSpeeds :: "SwerveModuleState list \<Rightarrow> real \<Rightarrow> error + SwerveModuleState list" where
  "normalizeWheelSpeeds moduleStates attainableMaxSpeed =
     (case py_max (map speed moduleStates) of
        Inl e \<Rightarrow> Inl e
      | Inr real_max_speed \<Rightarrow>
          if real_max_speed > attainableMaxSpeed
          then (if real_max_speed = 0 then Inl ZeroDivisionError
                else Inr (map (\<lambda>wheel.
                       wheel\<lparr>speed := speed wheel * (attainableMaxSpeed / real_max_speed)\<rparr>)
                     moduleStates))
          else Inr moduleStates)"

section \<open>SwerveDriveOdometry\<close>

text \<open>
  The slots \<open>kinematics\<close>, \<open>_pose\<close>, \<open>_previous_time\<close>, \<open>_previous_angle\<close> and
  \<open>_gyro_offset\<close> carry the suffix \<open>_od\<close>. The odometry only reads \<open>num_modules\<close> and
  \<open>forward_kinematics\<close> of its kinematics object, which no method assigns after
  construction, so it holds the object by value.
\<close>

record SwerveDriveOdometry =
  kinematics_od :: SwerveDriveKinematics
  pose_od :: Pose2d
  previous_time_od :: "real option"
  previous_angle_od :: Rotation2d
  gyro_offset_od :: Rotation2d

definition SwerveDriveOdometry_init ::
  "SwerveDriveKinematics \<Rightarrow> Rotation2d \<Rightarrow> Pose2d option \<Rightarrow> SwerveDriveOdometry" where
  "SwerveDriveOdometry_init k gyroAngle initialPose =
     (let initialPose' = (case initialPose of None \<Rightarrow> Pose2d_zero | Some p \<Rightarrow> p)
      in \<lparr>kinematics_od = k, pose_od = initialPose', previous_time_od = None,
          previous_angle_od = rotation initialPose',
          gyro_offset_od = rot_sub (rotation initialPose') gyroAngle\<rparr>)"

definition resetPosition :: "SwerveDriveOdometry \<Rightarrow> Pose2d \<Rightarrow> Rotation2d \<Rightarrow> SwerveDriveOdometry" where
  "resetPosition od p gyroAngle =
     od\<lparr>pose_od := p, previous_angle_od := rotation p,
        gyro_offset_od := rot_sub (rotation p) gyroAngle\<rparr>"

definition getPose :: "SwerveDriveOdometry \<Rightarrow> Pose2d" where
  "getPose od = pose_od od"

text \<open>
  \<open>updateWithTime\<close> returns the new pose or raises, and mutates the odometry either way:
  \<open>_previous_time\<close> is assigned before \<open>toChassisSpeeds\<close> is called.
\<close>

definition updateWithTime ::
  "SwerveDriveOdometry \<Rightarrow> real \<Rightarrow> Rotation2d \<Rightarrow> SwerveModuleState list \<Rightarrow>
     (error + Pose2d) \<times> SwerveDriveOdometry" where
  "updateWithTime od currentTime gyroAngle module_states =
     (let delta_time = (case previous_time_od od of
                          Some prev_time \<Rightarrow> currentTime - prev_time | None \<Rightarrow> 0);
          od1 = od\<lparr>previous_time_od := Some currentTime\<rparr>;
          ang = rot_add gyroAngle (gyro_offset_od od1)
      in case toChassisSpeeds (kinematics_od od1) module_states of
           Inl e \<Rightarrow> (Inl e, od1)
         | Inr cs \<Rightarrow>
             (let new_pose = exp_pose (pose_od od1)
                    \<lparr>dx = vx cs * delta_time, dy = vy cs * delta_time,
                     dtheta = getRadians (rot_sub ang (previous_angle_od od1))\<rparr>;
                  od2 = od1\<lparr>previous_angle_od := ang,
                            pose_od := \<lparr>translation = translation new_pose, rotation = ang\<rparr>\<rparr>
              in (Inr (pose_od od2), od2)))"

section \<open>The objects a program can hold\<close>

text \<open>
  The inverse-kinematics matrix as the specification describes it: each wheel contributes
  the rows \<open>[1, 0, -moduleY + corY]\<close> and \<open>[0, 1, moduleX - corX]\<close>.
\<close>

definition ik_matrix :: "Translation2d list \<Rightarrow> Translation2d \<Rightarrow> matrix" where
  "ik_matrix wheels cor =
     concat (map (\<lambda>wheel. [[1, 0, - y_t wheel + y_t cor], [0, 1, x_t wheel - x_t cor]]) wheels)"

text \<open>
  A kinematics object is made by the constructor and changed only by
  \<open>toSwerveModuleStates\<close>.
\<close>

inductive kinematics_object :: "SwerveDriveKinematics \<Rightarrow> bool" where
  made: "SwerveDriveKinematics_init wheels = Inr k \<Longrightarrow> kinematics_object k"
| used: "kinematics_object k \<Longrightarrow> toSwerveModuleStates k chassisSpeeds centerOfRotation = Inr (states, k')
         \<Longrightarrow> kinematics_object k'"

text \<open>What holds of every kinematics object.\<close>

definition kin_inv :: "SwerveDriveKinematics \<Rightarrow> bool" where
  "kin_inv k \<longleftrightarrow>
     2 \<le> length (modules k) \<and> num_modules k = length (modules k) \<and>
     inverse_kinematics k = ik_matrix (modules k) (prev_cor k) \<and>
     forward_kinematics k = pinv (ik_matrix (modules k) identity_translation)"

text \<open>
  The Cartesian velocity that the two matrix rows of a wheel give for chassis speeds \<open>s\<close>
  and centre of rotation \<open>cor\<close>.
\<close>

definition module_velocity :: "ChassisSpeeds \<Rightarrow> Translation2d \<Rightarrow> Translation2d \<Rightarrow> real \<times> real" where
  "module_velocity s cor wheel =
     (vx s + (- y_t wheel + y_t cor) * omega s, vy s + (x_t wheel - x_t cor) * omega s)"

text \<open>
  The vector that \<open>toChassisSpeeds\<close> multiplies the forward matrix by: the Cartesian
  velocities of the given states, flattened.
\<close>

definition module_vector :: "SwerveModuleState list \<Rightarrow> vec" where
  "module_vector sts =
     concat (map (\<lambda>m. [speed m * cos_r (angle m), speed m * sin_r (angle m)]) sts)"

text \<open>
  The shape that the recursion of \<open>pseudo_inverse\<close> keeps: as many rows as columns seen, every
  column and every row of length \<open>m\<close>.
\<close>

definition greville_ok :: "nat \<Rightarrow> vec list \<times> matrix \<Rightarrow> bool" where
  "greville_ok m st \<longleftrightarrow>
     length (fst st) = length (snd st) \<and> list_all (\<lambda>v. length v = m) (fst st) \<and>
     list_all (\<lambda>v. length v = m) (snd st)"

text \<open>
  The four Penrose conditions for the matrix \<open>A\<close> with the columns \<open>cols\<close> and the matrix
  with the rows \<open>P\<close>, stated on test vectors of length \<open>m\<close>: \<open>A P A = A\<close>, \<open>P A P = P\<close>,
  \<open>P A\<close> symmetric and \<open>A P\<close> symmetric. Here \<open>apply_m P x\<close> is \<open>P x\<close> and
  \<open>apply_m cols y\<close> is \<open>A\<^sup>T y\<close>.
\<close>

definition penrose_inv :: "nat \<Rightarrow> vec list \<times> matrix \<Rightarrow> bool" where
  "penrose_inv m st \<longleftrightarrow>
     (\<forall>c\<in>set (fst st). \<forall>y. length y = m \<longrightarrow>
        dot (apply_m (snd st) c) (apply_m (fst st) y) = dot c y) \<and>
     (\<forall>p\<in>set (snd st). \<forall>y. length y = m \<longrightarrow>
        dot (apply_m (fst st) p) (apply_m (snd st) y) = dot p y) \<and>
     (\<forall>i<length (snd st). \<forall>j<length (snd st). dot (snd st ! i) (fst st ! j) = dot (snd st ! j) (fst st ! i)) \<and>
     (\<forall>x y. length x = m \<longrightarrow> length y = m \<longrightarrow>
        dot (apply_m (snd st) x) (apply_m (fst st) y) = dot (apply_m (snd st) y) (apply_m (fst st) x))"

section \<open>Example objects\<close>

text \<open>Two wheels on the x axis, one unit either side of the robot centre.\<close>

definition wheels2 :: "Translation2d list" where
  "wheels2 = [Translation2d_init 1 0, Translation2d_init (- 1) 0]"

definition kin2 :: SwerveDriveKinematics where
  "kin2 = \<lparr>modules = wheels2, num_modules = 2,
           inverse_kinematics = [[1, 0, 0], [0, 1, 1], [1, 0, 0], [0, 1, - 1]],
           forward_kinematics = [[1 / 2, 0, 1 / 2, 0], [0, 1 / 2, 0, 1 / 2], [0, 1 / 2, 0, - (1 / 2)]],
           prev_cor = identity_translation\<rparr>"

text \<open>An odometry on the two-wheel kinematics, and two wheels standing still.\<close>

definition od2 :: SwerveDriveOdometry where
  "od2 = SwerveDriveOdometry_init kin2 Rotation2d_zero None"

definition still2 :: "SwerveModuleState list" where
  "still2 = [\<lparr>speed = 0, angle = Rotation2d_zero\<rparr>, \<lparr>speed = 0, angle = Rotation2d_zero\<rparr>]"

text \<open>A very slow reverse drive and the states that inverse kinematics returns for it.\<close>

definition slow_reverse :: ChassisSpeeds where
  "slow_reverse = \<lparr>vx = - (1 / 10 ^ 7), vy = 0, omega = 0\<rparr>"

definition crawl2 :: "SwerveModuleState list" where
  "crawl2 = [\<lparr>speed = 1 / 10 ^ 7, angle = Rotation2d_zero\<rparr>,
             \<lparr>speed = 1 / 10 ^ 7, angle = Rotation2d_zero\<rparr>]"

text \<open>Two very slow sideways drives, one to the left and one to the right.\<close>

definition slow_left :: ChassisSpeeds where
  "slow_left = \<lparr>vx = 0, vy = 1 / 10 ^ 7, omega = 0\<rparr>"

definition slow_right :: ChassisSpeeds where
  "slow_right = \<lparr>vx = 0, vy = - (1 / 10 ^ 7), omega = 0\<rparr>"

text \<open>The two-wheel kinematics after a call with the centre of rotation \<open>(0, 1)\<close>.\<close>

definition kin2_moved :: SwerveDriveKinematics where
  "kin2_moved = kin2\<lparr>inverse_kinematics := [[1, 0, 1], [0, 1, 1], [1, 0, 1], [0, 1, - 1]],
                     prev_cor := Translation2d_init 0 1\<rparr>"

text \<open>
  Two wheels very close to the robot centre, at the distance \<open>tiny\<close> either side of it on
  the y axis, the kinematics object that the constructor makes of them, a chassis speed
  that turns fast, and the states that inverse kinematics returns for it.
\<close>

definition tiny :: real where
  "tiny = 1 / 2 ^ 60"

definition wheels_close :: "Translation2d list" where
  "wheels_close = [Translation2d_init 0 tiny, Translation2d_init 0 (- tiny)]"

definition kin_close :: SwerveDriveKinematics where
  "kin_close = \<lparr>modules = wheels_close, num_modules = 2,
                 inverse_kinematics = [[1, 0, - tiny], [0, 1, 0], [1, 0, tiny], [0, 1, 0]],
                 forward_kinematics = [[1 / 2, 0, 1 / 2, 0], [0, 1 / 2, 0, 1 / 2], [0, 0, 0, 0]],
                 prev_cor = identity_translation\<rparr>"

definition spin :: ChassisSpeeds where
  "spin = \<lparr>vx = 2, vy = 0, omega = 1 / tiny\<rparr>"

definition spin_states :: "SwerveModuleState list" where
  "spin_states = [\<lparr>speed = 1, angle = Rotation2d_zero\<rparr>, \<lparr>speed = 3, angle = Rotation2d_zero\<rparr>]"

section \<open>The factors of \<open>exp\<close> and \<open>log\<close>\<close>








section \<open>Properties of the library functions\<close>

lemma atan2_cos_sin:
  assumes "c^2 + s^2 = 1"
  shows "cos (atan2 s c) = c \<and> sin (atan2 s c) = s"
proof -
  consider "0 < c" | "c < 0" "0 \<le> s" | "c < 0" "s < 0" | "c = 0" "0 < s" | "c = 0" "s < 0" | "c = 0" "s = 0"
    by linarith
  then show ?thesis
  proof cases
    case 1
    have e: "1 + (s / c)^2 = (1 / c)^2" using 1 assms by (simp add: field_simps power2_eq_square)
    have "sqrt (1 + (s/c)^2) = 1 / c" unfolding e using 1 by (simp add: real_sqrt_divide)
    then show ?thesis using 1 by (simp add: atan2_def cos_arctan sin_arctan)
  next
    case 2
    have e: "1 + (s / c)^2 = (1 / c)^2" using 2 assms by (simp add: field_simps power2_eq_square)
    have "sqrt (1 + (s/c)^2) = - (1 / c)" unfolding e using 2 by (simp add: real_sqrt_divide)
    then show ?thesis using 2 by (simp add: atan2_def cos_arctan sin_arctan)
  next
    case 3
    have e: "1 + (s / c)^2 = (1 / c)^2" using 3 assms by (simp add: field_simps power2_eq_square)
    have "sqrt (1 + (s/c)^2) = - (1 / c)" unfolding e using 3 by (simp add: real_sqrt_divide)
    then show ?thesis using 3 by (simp add: atan2_def cos_arctan sin_arctan)
  next
    case 4
    then have "s^2 = 1" using assms by simp
    then have "s = 1" using 4 by (simp add: power2_eq_1_iff)
    then show ?thesis using 4 by (simp add: atan2_def)
  next
    case 5
    then have "s^2 = 1" using assms by simp
    then have "s = -1" using 5 by (simp add: power2_eq_1_iff)
    then show ?thesis using 5 by (simp add: atan2_def)
  next
    case 6
    then show ?thesis using assms by simp
  qed
qed

lemma atan2_bounds: "- pi < atan2 y x \<and> atan2 y x \<le> pi"
proof -
  have b: "- (pi/2) < arctan (y / x)" "arctan (y / x) < pi / 2"
    using arctan_bounded by auto
  have neg: "x < 0 \<Longrightarrow> 0 \<le> y \<Longrightarrow> arctan (y / x) \<le> 0"
    by (simp add: divide_nonneg_neg)
  have pos: "x < 0 \<Longrightarrow> y < 0 \<Longrightarrow> 0 < arctan (y / x)"
    by (simp add: divide_neg_neg)
  show ?thesis
    using b neg pos pi_gt_zero by (auto simp: atan2_def)
qed

lemma atan2_sin_cos:
  assumes "- pi < v" "v \<le> pi"
  shows "atan2 (sin v) (cos v) = v"
proof -
  let ?w = "atan2 (sin v) (cos v)"
  have cs: "cos ?w = cos v \<and> sin ?w = sin v"
    by (rule atan2_cos_sin) simp
  have "cis ?w = cis v" using cs by (simp add: complex_eq_iff)
  moreover have "- pi < ?w \<and> ?w \<le> pi" by (rule atan2_bounds)
  ultimately show ?thesis
    using assms cis_Arg_unique[of "cis v" ?w] cis_Arg_unique[of "cis v" v]
    by (simp add: sgn_cis)
qed

section \<open>Rotations\<close>

lemma hypot_nonneg: "0 \<le> hypot x y" by (simp add: hypot_def)

lemma hypot_sq: "hypot x y ^ 2 = x^2 + y^2" by (simp add: hypot_def)

lemma xy_unit:
  "cos_r (Rotation2d_xy x y) ^ 2 + sin_r (Rotation2d_xy x y) ^ 2 = 1"
proof (cases "hypot x y > 1 / 10 ^ 6")
  case True
  then have m: "hypot x y \<noteq> 0" by auto
  have "(x / hypot x y)^2 + (y / hypot x y)^2 = (x^2 + y^2) / hypot x y ^ 2"
    by (simp add: power_divide add_divide_distrib)
  also have "\<dots> = 1" using m by (simp flip: hypot_sq)
  finally show ?thesis using True by (simp add: Rotation2d_xy_def Let_def)
next
  case False
  then show ?thesis by (simp add: Rotation2d_xy_def Let_def)
qed

lemma xy_value: "value_r (Rotation2d_xy x y) = atan2 (sin_r (Rotation2d_xy x y)) (cos_r (Rotation2d_xy x y))"
  by (simp add: Rotation2d_xy_def Let_def)

lemma xy_trig_consistent: "trig_consistent (Rotation2d_xy x y)"
  unfolding trig_consistent_def
  using atan2_cos_sin[OF xy_unit, of x y] by (simp add: xy_value)

lemma xy_angle_normalised: "angle_normalised (Rotation2d_xy x y)"
  unfolding angle_normalised_def by (rule xy_value)

lemma value_trig_consistent: "trig_consistent (Rotation2d_value v)"
  by (simp add: trig_consistent_def Rotation2d_value_def)

lemma zero_trig_consistent: "trig_consistent Rotation2d_zero"
  by (simp add: trig_consistent_def Rotation2d_zero_def)

lemma constructed_trig_consistent: "constructed r \<Longrightarrow> trig_consistent r"
  by (induction rule: constructed.induct)
     (simp_all add: zero_trig_consistent value_trig_consistent xy_trig_consistent
        rot_add_def rot_neg_def rot_sub_def rot_mul_def)

lemma normalised_iff:
  assumes "trig_consistent r"
  shows "angle_normalised r \<longleftrightarrow> - pi < value_r r \<and> value_r r \<le> pi"
proof
  assume "angle_normalised r"
  then have "value_r r = atan2 (sin_r r) (cos_r r)" by (simp add: angle_normalised_def)
  then show "- pi < value_r r \<and> value_r r \<le> pi"
    using atan2_bounds[of "sin_r r" "cos_r r"] by simp
next
  assume "- pi < value_r r \<and> value_r r \<le> pi"
  then have "atan2 (sin (value_r r)) (cos (value_r r)) = value_r r"
    by (simp add: atan2_sin_cos)
  then show "angle_normalised r"
    using assms by (simp add: angle_normalised_def trig_consistent_def)
qed

lemma xy_small: "hypot x y \<le> 1 / 10 ^ 6 \<Longrightarrow> Rotation2d_xy x y = Rotation2d_zero"
  by (simp add: Rotation2d_xy_def Let_def Rotation2d_zero_def atan2_def)

text \<open>
  Claim C5, as the code has it. Every rotation that the constructors and operators produce
  stores \<open>cos = cos(value)\<close> and \<open>sin = sin(value)\<close>. The third condition,
  \<open>value = atan2(sin, cos)\<close>, holds exactly when the stored value lies in \<open>(-pi, pi]\<close>:
  it holds for the default rotation, for construction from raw \<open>(x, y)\<close> and for
  composition and subtraction, which go through \<open>atan2\<close>; construction from a radian
  value, negation and scalar multiplication store the value they are given, unnormalised.
  Raw components of magnitude at most \<open>1e-6\<close>, the all-zero input among them, give the
  identity rotation.
\<close>

theorem rotation_triple_consistency:
  "constructed r \<Longrightarrow>
     trig_consistent r \<and>
     (angle_normalised r \<longleftrightarrow> - pi < value_r r \<and> value_r r \<le> pi) \<and>
     angle_normalised Rotation2d_zero \<and>
     angle_normalised (Rotation2d_xy x y) \<and>
     angle_normalised (rot_add a b) \<and>
     angle_normalised (rot_sub a b) \<and>
     (angle_normalised (Rotation2d_value v) \<longleftrightarrow> - pi < v \<and> v \<le> pi) \<and>
     (angle_normalised (rot_neg a) \<longleftrightarrow> - pi < - value_r a \<and> - value_r a \<le> pi) \<and>
     (angle_normalised (rot_mul a k) \<longleftrightarrow> - pi < value_r a * k \<and> value_r a * k \<le> pi) \<and>
     (hypot x y \<le> 1 / 10 ^ 6 \<longrightarrow> Rotation2d_xy x y = Rotation2d_zero) \<and>
     Rotation2d_xy 0 0 = Rotation2d_zero"
proof -
  assume c: "constructed r"
  have v: "\<And>w. angle_normalised (Rotation2d_value w) \<longleftrightarrow> - pi < w \<and> w \<le> pi"
    using normalised_iff[OF value_trig_consistent] by (simp add: Rotation2d_value_def)
  have z: "angle_normalised Rotation2d_zero"
    by (simp add: angle_normalised_def Rotation2d_zero_def atan2_def)
  have o: "Rotation2d_xy 0 0 = Rotation2d_zero"
    by (rule xy_small) (simp add: hypot_def)
  show ?thesis
    using constructed_trig_consistent[OF c] normalised_iff[OF constructed_trig_consistent[OF c]]
      z o v xy_angle_normalised xy_small
    by (simp add: rot_add_def rot_sub_def rot_neg_def rot_mul_def)
qed

theorem rotation_triple_consistency_witness:
  "constructed (rot_neg Rotation2d_zero) \<and> trig_consistent (rot_neg Rotation2d_zero) \<and>
   angle_normalised (rot_neg Rotation2d_zero)"
proof -
  have c: "constructed (rot_neg Rotation2d_zero)" by (intro constructed.intros)
  have "value_r (rot_neg Rotation2d_zero) = 0"
    by (simp add: rot_neg_def Rotation2d_value_def Rotation2d_zero_def)
  then show ?thesis
    using c rotation_triple_consistency[OF c, of 0 0 Rotation2d_zero Rotation2d_zero 0 0]
    by simp
qed

theorem unnormalised_rotation_counterexample:
  "constructed (rot_mul (Rotation2d_xy (-1) 0) 2) \<and>
   \<not> angle_normalised (rot_mul (Rotation2d_xy (-1) 0) 2)"
proof -
  have h: "hypot (-1) 0 = 1" by (simp add: hypot_def)
  have x: "Rotation2d_xy (-1) 0 = \<lparr>value_r = pi, cos_r = -1, sin_r = 0\<rparr>"
    by (simp add: Rotation2d_xy_def h atan2_def)
  have "rot_mul (Rotation2d_xy (-1) 0) 2 = \<lparr>value_r = pi * 2, cos_r = 1, sin_r = 0\<rparr>"
    by (simp add: x rot_mul_def Rotation2d_value_def mult.commute)
  then have "\<not> angle_normalised (rot_mul (Rotation2d_xy (-1) 0) 2)"
    by (simp add: angle_normalised_def atan2_def)
  then show ?thesis by (simp add: constructed.intros)
qed

section \<open>Chassis speeds\<close>

text \<open>
  Claim C9. For all \<open>vx\<close>, \<open>vy\<close>, \<open>omega\<close> and every rotation \<open>robotAngle\<close> that the program
  can hold, \<open>fromFieldRelativeSpeeds\<close> returns the vector \<open>(vx, vy)\<close> rotated by the
  negation of \<open>robotAngle\<close> with the rule of \<open>Translation2d.rotateBy\<close>, and \<open>omega\<close>
  unchanged. It is a function of its arguments alone.
\<close>

theorem fromFieldRelativeSpeeds_rotates:
  "constructed robotAngle \<Longrightarrow>
   fromFieldRelativeSpeeds fvx fvy om robotAngle =
     \<lparr>vx = x_t (rotateBy (Translation2d_init fvx fvy) (rot_neg robotAngle)),
      vy = y_t (rotateBy (Translation2d_init fvx fvy) (rot_neg robotAngle)),
      omega = om\<rparr>"
proof -
  assume "constructed robotAngle"
  then have "trig_consistent robotAngle" by (rule constructed_trig_consistent)
  then show ?thesis
    by (simp add: fromFieldRelativeSpeeds_def rotateBy_def rot_neg_def Rotation2d_value_def
        Translation2d_init_def trig_consistent_def)
qed

theorem fromFieldRelativeSpeeds_rotates_witness:
  "constructed Rotation2d_zero \<and>
   fromFieldRelativeSpeeds 1 2 3 Rotation2d_zero = \<lparr>vx = 1, vy = 2, omega = 3\<rparr>"
proof -
  have c: "constructed Rotation2d_zero" by (rule constructed.intros)
  show ?thesis
    using c fromFieldRelativeSpeeds_rotates[OF c, of 1 2 3]
    by (simp add: rotateBy_def rot_neg_def Rotation2d_value_def Translation2d_init_def
        Rotation2d_zero_def)
qed

section \<open>Kinematics objects\<close>

lemma set_entry_at:
  "length pre = i \<Longrightarrow> set_entry (pre @ [a, b, c] # post) i 2 v = Inr (pre @ [a, b, v] # post)"
  by (auto simp: set_entry_def nth_append)

lemma init_rows_eq:
  "length pre = 2 * i \<Longrightarrow>
   init_rows i ws (pre @ concat (map (\<lambda>w. [[1, 0, g w], [0, 1, h w]]) ws)) =
     Inr (pre @ concat (map (\<lambda>w. [[1, 0, - y_t w], [0, 1, x_t w]]) ws))"
proof (induction ws arbitrary: pre i)
  case Nil
  then show ?case by simp
next
  case (Cons w ws)
  let ?rest = "concat (map (\<lambda>w. [[1, 0, g w], [0, 1, h w]]) ws)"
  have 1: "set_entry (pre @ [1, 0, g w] # [0, 1, h w] # ?rest) (2 * i) 2 (- y_t w)
           = Inr (pre @ [1, 0, - y_t w] # [0, 1, h w] # ?rest)"
    using Cons.prems by (rule set_entry_at[OF sym[OF sym]])
  have 2: "set_entry ((pre @ [[1, 0, - y_t w]]) @ [0, 1, h w] # ?rest) (2 * i + 1) 2 (x_t w)
           = Inr ((pre @ [[1, 0, - y_t w]]) @ [0, 1, x_t w] # ?rest)"
    by (rule set_entry_at) (simp add: Cons.prems)
  have 3: "init_rows (i + 1) ws ((pre @ [[1, 0, - y_t w], [0, 1, x_t w]]) @ ?rest)
           = Inr ((pre @ [[1, 0, - y_t w], [0, 1, x_t w]]) @ concat (map (\<lambda>w. [[1, 0, - y_t w], [0, 1, x_t w]]) ws))"
    by (rule Cons.IH) (simp add: Cons.prems)
  show ?case
    using 1 2 3 by simp
qed

lemma cor_rows_eq:
  "length pre = 2 * i \<Longrightarrow>
   cor_rows cx cy i ws (pre @ concat (map (\<lambda>w. [[1, 0, g w], [0, 1, h w]]) ws)) =
     Inr (pre @ concat (map (\<lambda>w. [[1, 0, - y_t w + cy], [0, 1, x_t w - cx]]) ws))"
proof (induction ws arbitrary: pre i)
  case Nil
  then show ?case by simp
next
  case (Cons w ws)
  let ?rest = "concat (map (\<lambda>w. [[1, 0, g w], [0, 1, h w]]) ws)"
  have 1: "set_entry (pre @ [1, 0, g w] # [0, 1, h w] # ?rest) (2 * i) 2 (- y_t w + cy)
           = Inr (pre @ [1, 0, - y_t w + cy] # [0, 1, h w] # ?rest)"
    using Cons.prems by (rule set_entry_at[OF sym[OF sym]])
  have 2: "set_entry ((pre @ [[1, 0, - y_t w + cy]]) @ [0, 1, h w] # ?rest) (2 * i + 1) 2 (x_t w - cx)
           = Inr ((pre @ [[1, 0, - y_t w + cy]]) @ [0, 1, x_t w - cx] # ?rest)"
    by (rule set_entry_at) (simp add: Cons.prems)
  have 3: "cor_rows cx cy (i + 1) ws ((pre @ [[1, 0, - y_t w + cy], [0, 1, x_t w - cx]]) @ ?rest)
           = Inr ((pre @ [[1, 0, - y_t w + cy], [0, 1, x_t w - cx]]) @ concat (map (\<lambda>w. [[1, 0, - y_t w + cy], [0, 1, x_t w - cx]]) ws))"
    by (rule Cons.IH) (simp add: Cons.prems)
  show ?case
    using 1 2 3 by simp
qed

lemma init_matrix: "concat (replicate (length ws) [[1, 0, 0], [0, 1, 0::real]])
   = concat (map (\<lambda>w. [[1, 0, 0], [0, 1, 0]]) ws)"
  by (simp add: map_replicate_const)

lemma init_rows_ik:
  "init_rows 0 ws (concat (replicate (length ws) [[1, 0, 0], [0, 1, 0]])) = Inr (ik_matrix ws identity_translation)"
  using init_rows_eq[of "[]" 0 ws "\<lambda>w. 0" "\<lambda>w. 0"]
  by (simp add: init_matrix ik_matrix_def identity_translation_def Translation2d_init_def)

lemma cor_rows_ik:
  "cor_rows (x_t cor) (y_t cor) 0 ws (ik_matrix ws prev) = Inr (ik_matrix ws cor)"
  using cor_rows_eq[of "[]" 0 "x_t cor" "y_t cor" ws]
  by (simp add: ik_matrix_def)

lemma init_result:
  "SwerveDriveKinematics_init ws =
     (if length ws < 2 then Inl AssertionError
      else Inr \<lparr>modules = ws, num_modules = length ws,
                inverse_kinematics = ik_matrix ws identity_translation,
                forward_kinematics = pinv (ik_matrix ws identity_translation),
                prev_cor = identity_translation\<rparr>)"
  by (simp add: SwerveDriveKinematics_init_def init_rows_ik not_le)

lemma init_kin_inv: "SwerveDriveKinematics_init ws = Inr k \<Longrightarrow> kin_inv k"
  by (auto simp: init_result kin_inv_def split: if_splits)

lemma matvec_ik:
  "matvec (ik_matrix ws cor) [a, b, c] =
     Inr (concat (map (\<lambda>w. [a + (- y_t w + y_t cor) * c, b + (x_t w - x_t cor) * c]) ws))"
proof -
  have "list_all (\<lambda>row. length row = length [a, b, c]) (ik_matrix ws cor)"
    by (induction ws) (simp_all add: ik_matrix_def)
  moreover have "map (\<lambda>row. dot row [a, b, c]) (ik_matrix ws cor)
    = concat (map (\<lambda>w. [a + (- y_t w + y_t cor) * c, b + (x_t w - x_t cor) * c]) ws)"
    by (induction ws) (simp_all add: ik_matrix_def dot_def)
  ultimately show ?thesis by (simp add: matvec_def)
qed

lemma reshape2_pairs:
  "reshape2 (concat (map (\<lambda>w. [p w, q w]) ws)) = Inr (map (\<lambda>w. (p w, q w)) ws)"
  by (induction ws) simp_all

lemma toSwerveModuleStates_result:
  assumes "kin_inv k"
  shows "toSwerveModuleStates k s cor =
     (let k' = (if \<not> tr_eq (prev_cor k) cor
                then k\<lparr>inverse_kinematics := ik_matrix (modules k) cor, prev_cor := cor\<rparr> else k)
      in Inr (map (\<lambda>w. \<lparr>speed = hypot (fst (module_velocity s (prev_cor k') w)) (snd (module_velocity s (prev_cor k') w)),
                         angle = Rotation2d_xy (fst (module_velocity s (prev_cor k') w)) (snd (module_velocity s (prev_cor k') w))\<rparr>)
                (modules k), k'))"
proof -
  have ik: "inverse_kinematics k = ik_matrix (modules k) (prev_cor k)"
    using assms by (simp add: kin_inv_def)
  show ?thesis
    by (simp add: toSwerveModuleStates_def ik cor_rows_ik matvec_ik reshape2_pairs
        module_velocity_def o_def)
qed

lemma toSwerveModuleStates_kin_inv:
  "kin_inv k \<Longrightarrow> toSwerveModuleStates k s cor = Inr (sts, k') \<Longrightarrow> kin_inv k'"
  by (auto simp: toSwerveModuleStates_result Let_def kin_inv_def split: if_splits)

lemma kinematics_object_inv: "kinematics_object k \<Longrightarrow> kin_inv k"
  by (induction rule: kinematics_object.induct)
     (auto intro: init_kin_inv toSwerveModuleStates_kin_inv)

lemma length_vadd: "length (vadd xs ys) = min (length xs) (length ys)" by (simp add: vadd_def)
lemma length_vsub: "length (vsub xs ys) = min (length xs) (length ys)" by (simp add: vsub_def)
lemma length_vscale: "length (vscale k xs) = length xs" by (simp add: vscale_def)

lemma length_lincomb:
  "\<forall>v\<in>set vs. length v = m \<Longrightarrow> length (lincomb m ds vs) = m"
  by (induction m ds vs rule: lincomb.induct) (simp_all add: length_vadd length_vscale)

lemma greville_step_ok:
  assumes "greville_ok m st" "length a = m"
  shows "greville_ok m (greville_step m st a) \<and> length (snd (greville_step m st a)) = Suc (length (snd st))"
proof -
  obtain cols P where st: "st = (cols, P)" by (cases st)
  have lc: "length cols = length P" and c: "\<forall>v\<in>set cols. length v = m" and p: "\<forall>v\<in>set P. length v = m"
    using assms(1) by (auto simp: greville_ok_def st list_all_iff)
  define d where "d = map (\<lambda>row. dot row a) P"
  define c where "c = vsub a (lincomb m d cols)"
  define b where "b = (if dot c c \<noteq> 0 then vscale (1 / dot c c) c
               else vscale (1 / (1 + dot d d)) (lincomb m d P))"
  have lb: "length b = m"
    using assms(2) length_lincomb[OF \<open>\<forall>v\<in>set cols. length v = m\<close>] length_lincomb[OF p]
    by (simp add: b_def c_def length_vscale length_vsub)
  have eq: "greville_step m st a = (cols @ [a], map2 (\<lambda>row dj. vsub row (vscale dj b)) P d @ [b])"
    by (simp add: greville_step_def st Let_def d_def c_def b_def)
  have rows: "\<forall>v\<in>set (map2 (\<lambda>row dj. vsub row (vscale dj b)) P d). length v = m"
    using p lb by (auto simp: length_vsub length_vscale dest!: set_zip_leftD)
  show ?thesis
    unfolding eq greville_ok_def list_all_iff using lc \<open>\<forall>v\<in>set cols. length v = m\<close> rows lb assms(2)
    by (auto simp: d_def st)
qed

lemma greville_fold_ok:
  "greville_ok m st \<Longrightarrow> \<forall>a\<in>set as. length a = m \<Longrightarrow>
   greville_ok m (foldl (greville_step m) st as) \<and>
   length (snd (foldl (greville_step m) st as)) = length (snd st) + length as"
proof (induction as arbitrary: st)
  case Nil
  then show ?case by simp
next
  case (Cons a as)
  have s: "greville_ok m (greville_step m st a) \<and> length (snd (greville_step m st a)) = Suc (length (snd st))"
    by (rule greville_step_ok) (use Cons.prems in auto)
  show ?case using Cons.IH[of "greville_step m st a"] s Cons.prems by simp
qed

lemma columns_ik:
  "ws \<noteq> [] \<Longrightarrow> columns (ik_matrix ws cor) =
     [concat (map (\<lambda>w. [1, 0]) ws), concat (map (\<lambda>w. [0, 1]) ws),
      concat (map (\<lambda>w. [- y_t w + y_t cor, x_t w - x_t cor]) ws)]"
proof -
  assume ne: "ws \<noteq> []"
  then obtain w ws' where ws: "ws = w # ws'" by (cases ws) auto
  have "\<exists>r rest. ik_matrix ws cor = r # rest \<and> length r = 3"
    by (simp add: ik_matrix_def ws)
  then obtain r rest where e: "ik_matrix ws cor = r # rest" "length r = 3" by blast
  have l: "columns (ik_matrix ws cor) = map (\<lambda>j. map (\<lambda>row. row ! j) (ik_matrix ws cor)) [0..<3]"
    unfolding columns_def e(1) by (simp add: e(2))
  have u: "[0..<3] = [0, 1, 2]" by (simp add: upt_rec)
  have m: "\<And>j. map (\<lambda>row. row ! j) (ik_matrix ws cor)
     = concat (map (\<lambda>w. [[1, 0, - y_t w + y_t cor] ! j, [0, 1, x_t w - x_t cor] ! j]) ws)"
    by (simp add: ik_matrix_def map_concat o_def)
  show ?thesis unfolding l u by (simp add: m)
qed

lemma length_ik: "length (ik_matrix ws cor) = 2 * length ws"
  by (induction ws) (simp_all add: ik_matrix_def)

lemma length_concat2: "length (concat (map (\<lambda>w. [p w, q w]) ws)) = 2 * length ws"
  by (induction ws) simp_all

lemma pseudo_inverse_shape:
  assumes "M \<noteq> []" and "\<forall>row\<in>set M. length row = 3"
  shows "length (pseudo_inverse M) = 3 \<and> (\<forall>row\<in>set (pseudo_inverse M). length row = length M)"
proof -
  obtain r rest where e: "M = r # rest" using assms(1) by (cases M) auto
  then have lr: "length r = 3" using assms(2) by simp
  have cols: "columns M = map (\<lambda>j. map (\<lambda>row. row ! j) M) [0..<3]"
    unfolding columns_def e by (simp add: lr)
  have "greville_ok (length M) ([], [])" by (simp add: greville_ok_def)
  moreover have "\<forall>a\<in>set (columns M). length a = length M"
    by (simp add: cols)
  ultimately have "greville_ok (length M) (foldl (greville_step (length M)) ([], []) (columns M))
    \<and> length (snd (foldl (greville_step (length M)) ([], []) (columns M))) = length (snd (([]::vec list), ([]::matrix))) + length (columns M)"
    by (rule greville_fold_ok)
  then show ?thesis
    by (simp add: pseudo_inverse_def greville_ok_def list_all_iff cols)
qed

lemma singular_lengths: "(lam, w) \<in> set (singular M) \<Longrightarrow> length w = 3"
  by (auto simp: singular_def Let_def split: list.splits if_splits)

lemma small_singular_subset: "set (small_singular M) \<subseteq> set (singular M)"
  by (auto simp: small_singular_def Let_def)

lemma length_without:
  "\<forall>p\<in>set sm. length (snd p) = length acc \<Longrightarrow>
   length (foldl (\<lambda>acc (lam, w). vsub acc (vscale (c w) w)) acc sm) = length acc"
  by (induction sm arbitrary: acc) (simp_all add: length_vsub length_vscale split_beta)

lemma zero_small_shape:
  assumes "\<forall>row\<in>set M. length row = 3"
  shows "length (zero_small M) = length M \<and> (\<forall>row\<in>set (zero_small M). length row = 3)"
proof -
  have s: "\<forall>p\<in>set (small_singular M). length (snd p) = 3"
    using small_singular_subset[of M] singular_lengths[of _ _ M] by fastforce
  have "\<And>row. row \<in> set M \<Longrightarrow>
      length (foldl (\<lambda>acc (lam, w). vsub acc (vscale (dot row w / dot w w) w)) row (small_singular M)) = 3"
  proof -
    fix row assume r: "row \<in> set M"
    then have l: "length row = 3" using assms by simp
    show "length (foldl (\<lambda>acc (lam, w). vsub acc (vscale (dot row w / dot w w) w)) row (small_singular M)) = 3"
      using length_without[of "small_singular M" row "\<lambda>w. dot row w / dot w w"] s l by simp
  qed
  then show ?thesis by (simp add: zero_small_def)
qed

lemma rows_ik: "\<forall>row\<in>set (ik_matrix ws cor). length row = 3"
  by (auto simp: ik_matrix_def)

lemma pinv_ik_shape:
  assumes "ws \<noteq> []"
  shows "length (pinv (ik_matrix ws cor)) = 3 \<and>
         (\<forall>row\<in>set (pinv (ik_matrix ws cor)). length row = 2 * length ws)"
proof -
  have z: "length (zero_small (ik_matrix ws cor)) = 2 * length ws"
      "\<forall>row\<in>set (zero_small (ik_matrix ws cor)). length row = 3"
    using zero_small_shape[OF rows_ik, of ws cor] by (simp_all add: length_ik)
  then have "zero_small (ik_matrix ws cor) \<noteq> []" using assms by auto
  then show ?thesis
    using pseudo_inverse_shape[of "zero_small (ik_matrix ws cor)"] z by (simp add: pinv_def)
qed

lemma rcond_sq: "rcond ^ 2 = 1 / 10 ^ 30"
  by (simp add: rcond_def power_divide)

lemma pinv_well_conditioned: "well_conditioned M \<Longrightarrow> pinv M = pseudo_inverse M"
  by (simp add: pinv_def zero_small_def well_conditioned_def)

lemma matvec_shape:
  "\<forall>row\<in>set M. length row = length v \<Longrightarrow> matvec M v = Inr (map (\<lambda>row. dot row v) M)"
  by (simp add: matvec_def list_all_iff)

lemma ChassisSpeeds_of_three:
  "length v = 3 \<Longrightarrow> ChassisSpeeds_of v = Inr \<lparr>vx = v ! 0, vy = v ! 1, omega = v ! 2\<rparr>"
  by (auto simp: ChassisSpeeds_of_def split: list.splits)

lemma toChassisSpeeds_result:
  assumes "kin_inv k"
  shows "toChassisSpeeds k sts =
     (if length sts \<noteq> num_modules k then Inl AssertionError
      else Inr \<lparr>vx = dot (forward_kinematics k ! 0) (module_vector sts),
                vy = dot (forward_kinematics k ! 1) (module_vector sts),
                omega = dot (forward_kinematics k ! 2) (module_vector sts)\<rparr>)"
proof (cases "length sts = num_modules k")
  case False
  then show ?thesis by (simp add: toChassisSpeeds_def)
next
  case True
  have ne: "modules k \<noteq> []" using assms by (auto simp: kin_inv_def)
  have fk: "forward_kinematics k = pinv (ik_matrix (modules k) identity_translation)"
    and n: "num_modules k = length (modules k)"
    using assms by (auto simp: kin_inv_def)
  have sh: "length (forward_kinematics k) = 3"
     "\<forall>row\<in>set (forward_kinematics k). length row = 2 * length (modules k)"
    using pinv_ik_shape[OF ne, of identity_translation] by (simp_all add: fk)
  have lv: "length (module_vector sts) = 2 * length (modules k)"
    using True n by (simp add: module_vector_def length_concat2)
  have mv: "matvec (forward_kinematics k) (module_vector sts)
      = Inr (map (\<lambda>row. dot row (module_vector sts)) (forward_kinematics k))"
    by (rule matvec_shape) (simp add: sh lv)
  show ?thesis
    using True sh(1)
    by (simp add: toChassisSpeeds_def mv ChassisSpeeds_of_three flip: module_vector_def)
qed

section \<open>The two-wheel example\<close>

lemma cols_kin2: "columns [[1, 0, 0], [0, 1, 1], [1, 0, 0], [0, 1, - 1::real]] = [[1,0,1,0],[0,1,0,1],[0,1,0,-1]]"
  by (simp add: columns_def upt_rec)

lemma conditioned_kin2: "well_conditioned [[1, 0, 0], [0, 1, 1], [1, 0, 0], [0, 1, - 1]]"
  by (simp add: well_conditioned_def small_singular_def singular_def cols_kin2 dot_def Let_def rcond_sq)

lemma pinv_kin2: "pinv [[1, 0, 0], [0, 1, 1], [1, 0, 0], [0, 1, - 1]] = [[1 / 2, 0, 1 / 2, 0], [0, 1 / 2, 0, 1 / 2], [0, 1 / 2, 0, - (1 / 2)]]"
  unfolding pinv_well_conditioned[OF conditioned_kin2]
  by (simp add: pseudo_inverse_def cols_kin2 greville_step_def Let_def dot_def vsub_def vadd_def vscale_def)

lemma init_wheels2: "SwerveDriveKinematics_init wheels2 = Inr kin2"
  by (simp add: init_result wheels2_def kin2_def ik_matrix_def identity_translation_def Translation2d_init_def pinv_kin2)

lemma kin2_object: "kinematics_object kin2"
  by (rule kinematics_object.made) (rule init_wheels2)

section \<open>Errors of the kinematics\<close>

text \<open>
  Claim C7. Construction raises exactly when fewer than two wheel offsets are given, and
  \<open>toChassisSpeeds\<close> raises exactly when the number of states differs from
  \<open>num_modules\<close>; both raise \<open>AssertionError\<close>, as the first thing they do: no object is
  made and \<open>toChassisSpeeds\<close> assigns nothing. Inverse kinematics on a kinematics object
  never raises: no other precondition is checked.
\<close>

theorem runtime_checked_preconditions:
  assumes "kinematics_object k"
  shows "((\<exists>e. SwerveDriveKinematics_init wheels = Inl e) \<longleftrightarrow> length wheels < 2) \<and>
         (length wheels < 2 \<longrightarrow> SwerveDriveKinematics_init wheels = Inl AssertionError) \<and>
         ((\<exists>e. toChassisSpeeds k wheel_states = Inl e) \<longleftrightarrow> length wheel_states \<noteq> num_modules k) \<and>
         (length wheel_states \<noteq> num_modules k \<longrightarrow> toChassisSpeeds k wheel_states = Inl AssertionError) \<and>
         (\<exists>r. toSwerveModuleStates k s cor = Inr r)"
proof -
  have inv: "kin_inv k" using assms by (rule kinematics_object_inv)
  show ?thesis
    by (simp add: init_result toChassisSpeeds_result[OF inv] toSwerveModuleStates_result[OF inv] Let_def)
qed

theorem runtime_checked_preconditions_witness:
  "kinematics_object kin2 \<and>
   SwerveDriveKinematics_init [Translation2d_init 1 0] = Inl AssertionError \<and>
   toChassisSpeeds kin2 [] = Inl AssertionError \<and>
   (\<exists>r. toSwerveModuleStates kin2 \<lparr>vx = 1, vy = 0, omega = 0\<rparr> identity_translation = Inr r)"
  using kin2_object
    runtime_checked_preconditions[OF kin2_object, of "[Translation2d_init 1 0]" "[]"
      "\<lparr>vx = 1, vy = 0, omega = 0\<rparr>" identity_translation]
  by (simp add: kin2_def)

section \<open>Normalising wheel speeds\<close>

text \<open>
  Claim C3. \<open>normalizeWheelSpeeds\<close> takes the maximum of the signed speeds, not of their
  absolute values. On the speeds \<open>[-10, 1]\<close> with attainable maximum 5 it leaves the list
  as it is, although one wheel runs at twice the attainable speed; on \<open>[5, 6, 4, 7]\<close> with
  attainable maximum 5.5 it scales every speed by \<open>5.5 / 7\<close>.
\<close>

theorem normalizeWheelSpeeds_ignores_reverse_speed:
  "normalizeWheelSpeeds [\<lparr>speed = - 10, angle = Rotation2d_zero\<rparr>, \<lparr>speed = 1, angle = Rotation2d_zero\<rparr>] 5
     = Inr [\<lparr>speed = - 10, angle = Rotation2d_zero\<rparr>, \<lparr>speed = 1, angle = Rotation2d_zero\<rparr>] \<and>
   normalizeWheelSpeeds [\<lparr>speed = 5, angle = Rotation2d_zero\<rparr>, \<lparr>speed = 6, angle = Rotation2d_zero\<rparr>,
                         \<lparr>speed = 4, angle = Rotation2d_zero\<rparr>, \<lparr>speed = 7, angle = Rotation2d_zero\<rparr>] (11 / 2)
     = Inr [\<lparr>speed = 5 * ((11 / 2) / 7), angle = Rotation2d_zero\<rparr>, \<lparr>speed = 6 * ((11 / 2) / 7), angle = Rotation2d_zero\<rparr>,
            \<lparr>speed = 4 * ((11 / 2) / 7), angle = Rotation2d_zero\<rparr>, \<lparr>speed = 7 * ((11 / 2) / 7), angle = Rotation2d_zero\<rparr>]"
  by (simp add: normalizeWheelSpeeds_def)

section \<open>Odometry\<close>

text \<open>
  Claim C8. \<open>resetPosition\<close> sets the pose to the given pose, the previous angle to the
  pose's rotation and the gyro offset to the pose's rotation minus the gyro angle, and
  leaves the previous timestamp and the kinematics as they were. The next update therefore
  takes its \<open>dt\<close> from the timestamp that was there before the reset, or 0 if there was
  none.
\<close>

theorem resetPosition_frame:
  "pose_od (resetPosition od p gyroAngle) = p \<and>
   previous_angle_od (resetPosition od p gyroAngle) = rotation p \<and>
   gyro_offset_od (resetPosition od p gyroAngle) = rot_sub (rotation p) gyroAngle \<and>
   previous_time_od (resetPosition od p gyroAngle) = previous_time_od od \<and>
   kinematics_od (resetPosition od p gyroAngle) = kinematics_od od \<and>
   (case toChassisSpeeds (kinematics_od od) ms of
      Inl e \<Rightarrow> fst (updateWithTime (resetPosition od p gyroAngle) t g ms) = Inl e
    | Inr cs \<Rightarrow>
        (let dt = (case previous_time_od od of Some prev \<Rightarrow> t - prev | None \<Rightarrow> 0);
             ang = rot_add g (rot_sub (rotation p) gyroAngle)
         in fst (updateWithTime (resetPosition od p gyroAngle) t g ms) =
              Inr \<lparr>translation = translation (exp_pose p
                       \<lparr>dx = vx cs * dt, dy = vy cs * dt,
                        dtheta = value_r (rot_sub ang (rotation p))\<rparr>),
                   rotation = ang\<rparr>))"
  by (simp add: resetPosition_def updateWithTime_def Let_def getRadians_def split: sum.splits)

lemma exp_pose_still:
  "translation (exp_pose p \<lparr>dx = 0, dy = 0, dtheta = th\<rparr>) = translation p"
  by (simp add: exp_pose_def Let_def pose_add_def tr_add_def rotateBy_def Translation2d_init_def)

text \<open>
  Claim C4. With as many states as the kinematics has wheels, \<open>updateWithTime\<close> returns a
  pose and leaves the odometry as follows: \<open>dt\<close> is the time minus the previous timestamp,
  or 0 if there is none; the corrected angle is the gyro angle composed with the gyro
  offset; \<open>vx\<close> and \<open>vy\<close> are those of \<open>toChassisSpeeds\<close>, whose angular rate is not used;
  the pose is advanced by \<open>exp\<close> of the twist \<open>(vx dt, vy dt, (corrected - previous).value)\<close>
  and its rotation replaced by the corrected angle; previous angle and previous time are
  updated. On the first call the translation does not move.
\<close>

theorem updateWithTime_step:
  assumes "kinematics_object (kinematics_od od)"
      and "length ms = num_modules (kinematics_od od)"
  shows "\<exists>cs. toChassisSpeeds (kinematics_od od) ms = Inr cs \<and>
     (let dt = (case previous_time_od od of Some prev \<Rightarrow> t - prev | None \<Rightarrow> 0);
          corrected = rot_add gyroAngle (gyro_offset_od od);
          advanced = exp_pose (pose_od od)
                       \<lparr>dx = vx cs * dt, dy = vy cs * dt,
                        dtheta = value_r (rot_sub corrected (previous_angle_od od))\<rparr>;
          new_pose = \<lparr>translation = translation advanced, rotation = corrected\<rparr>
      in updateWithTime od t gyroAngle ms =
           (Inr new_pose, od\<lparr>pose_od := new_pose, previous_time_od := Some t,
                               previous_angle_od := corrected\<rparr>) \<and>
         rotation new_pose = corrected \<and>
         (previous_time_od od = None \<longrightarrow> translation new_pose = translation (pose_od od)))"
proof -
  have inv: "kin_inv (kinematics_od od)" using assms(1) by (rule kinematics_object_inv)
  obtain cs where cs: "toChassisSpeeds (kinematics_od od) ms = Inr cs"
    using assms(2) by (simp add: toChassisSpeeds_result[OF inv])
  show ?thesis
    by (rule exI[of _ cs]) (simp add: cs updateWithTime_def Let_def getRadians_def exp_pose_still)
qed

theorem updateWithTime_step_witness:
  "kinematics_object (kinematics_od od2) \<and> length still2 = num_modules (kinematics_od od2) \<and>
   previous_time_od od2 = None \<and>
   translation (pose_od (snd (updateWithTime od2 0 Rotation2d_zero still2))) = translation (pose_od od2) \<and>
   previous_time_od (snd (updateWithTime od2 0 Rotation2d_zero still2)) = Some 0"
proof -
  have k: "kinematics_od od2 = kin2" by (simp add: od2_def SwerveDriveOdometry_init_def)
  have c: "kinematics_object (kinematics_od od2)" unfolding k by (rule kin2_object)
  have l: "length still2 = num_modules (kinematics_od od2)" by (simp add: k kin2_def still2_def)
  have n: "previous_time_od od2 = None" by (simp add: od2_def SwerveDriveOdometry_init_def)
  show ?thesis
    using c l n updateWithTime_step[OF c l, of 0 Rotation2d_zero]
    by (auto simp: Let_def)
qed

section \<open>The pseudoinverse of the inverse-kinematics matrix\<close>

subsection \<open>Dot products\<close>

lemma dot_Nil_left: "dot [] y = 0" by (simp add: dot_def)
lemma dot_Nil_right: "dot x [] = 0" by (simp add: dot_def)
lemma dot_Cons: "dot (a # x) (b # y) = a * b + dot x y" by (simp add: dot_def)

lemma dot_commute: "dot x y = dot y x"
proof (induction x arbitrary: y)
  case Nil
  show ?case by (simp add: dot_Nil_left dot_Nil_right)
next
  case (Cons a x)
  show ?case by (cases y) (simp_all add: dot_Nil_right dot_Nil_left dot_Cons Cons.IH)
qed

lemma dot_vscale_left: "dot (vscale k x) y = k * dot x y"
proof (induction x arbitrary: y)
  case Nil
  show ?case by (simp add: vscale_def dot_Nil_left)
next
  case (Cons a x)
  show ?case
  proof (cases y)
    case Nil
    then show ?thesis by (simp add: dot_Nil_right)
  next
    case (Cons b y')
    have "vscale k (a # x) = k * a # vscale k x" by (simp add: vscale_def)
    then show ?thesis using Cons.IH[of y'] by (simp add: Cons dot_Cons algebra_simps)
  qed
qed

lemma dot_vadd_left: "length x = length x' \<Longrightarrow> dot (vadd x x') y = dot x y + dot x' y"
proof (induction x x' arbitrary: y rule: list_induct2)
  case Nil
  show ?case by (simp add: vadd_def dot_Nil_left)
next
  case (Cons a x a' x')
  have v: "vadd (a # x) (a' # x') = (a + a') # vadd x x'" by (simp add: vadd_def)
  show ?case
  proof (cases y)
    case Nil
    then show ?thesis by (simp add: dot_Nil_right)
  next
    case c: (Cons b y')
    show ?thesis unfolding c v dot_Cons Cons.IH[of y'] by (simp add: algebra_simps)
  qed
qed

lemma dot_vsub_left: "length x = length x' \<Longrightarrow> dot (vsub x x') y = dot x y - dot x' y"
proof (induction x x' arbitrary: y rule: list_induct2)
  case Nil
  show ?case by (simp add: vsub_def dot_Nil_left)
next
  case (Cons a x a' x')
  have v: "vsub (a # x) (a' # x') = (a - a') # vsub x x'" by (simp add: vsub_def)
  show ?case
  proof (cases y)
    case Nil
    then show ?thesis by (simp add: dot_Nil_right)
  next
    case c: (Cons b y')
    show ?thesis unfolding c v dot_Cons Cons.IH[of y'] by (simp add: algebra_simps)
  qed
qed

lemma dot_zero_left: "dot (replicate m 0) y = 0"
proof (induction m arbitrary: y)
  case 0
  show ?case by (simp add: dot_Nil_left)
next
  case (Suc m)
  show ?case by (cases y) (simp_all add: dot_Nil_right dot_Cons Suc.IH)
qed

lemma dot_vscale_right: "dot y (vscale k x) = k * dot y x"
  using dot_vscale_left[of k x y] by (simp add: dot_commute)

lemma dot_vadd_right: "length x = length x' \<Longrightarrow> dot y (vadd x x') = dot y x + dot y x'"
  using dot_vadd_left[of x x' y] by (simp add: dot_commute)

lemma dot_vsub_right: "length x = length x' \<Longrightarrow> dot y (vsub x x') = dot y x - dot y x'"
  using dot_vsub_left[of x x' y] by (simp add: dot_commute)

lemma dot_zero_right: "dot y (replicate m 0) = 0"
  using dot_zero_left[of m y] by (simp add: dot_commute)

lemmas dot_bilinear = dot_vscale_left dot_vscale_right dot_vadd_left dot_vadd_right
  dot_vsub_left dot_vsub_right dot_zero_left dot_zero_right
  length_vadd length_vsub length_vscale

lemma gram_11: "dot (concat (map (\<lambda>w. [1, 0]) ws)) (concat (map (\<lambda>w. [1, 0]) ws)) = real (length ws)"
  by (induction ws) (simp_all add: dot_Nil_left dot_Cons)

lemma gram_22: "dot (concat (map (\<lambda>w. [0, 1]) ws)) (concat (map (\<lambda>w. [0, 1]) ws)) = real (length ws)"
  by (induction ws) (simp_all add: dot_Nil_left dot_Cons)

lemma gram_12: "dot (concat (map (\<lambda>w. [1, 0]) ws)) (concat (map (\<lambda>w. [0, 1]) ws)) = 0"
  by (induction ws) (simp_all add: dot_Nil_left dot_Cons)

lemma gram_21: "dot (concat (map (\<lambda>w. [0, 1]) ws)) (concat (map (\<lambda>w. [1, 0]) ws)) = 0"
  by (simp add: dot_commute[of "concat (map (\<lambda>w. [0, 1]) ws)"] gram_12)

text \<open>The part of the third column outside the span of the first two, entry by entry.\<close>

lemma residual_entries:
  "vsub (concat (map (\<lambda>w. [a w, b w]) ws))
        (vadd (vscale d1 (concat (map (\<lambda>w. [1, 0]) ws)))
              (vadd (vscale d2 (concat (map (\<lambda>w. [0, 1]) ws))) (replicate (2 * length ws) 0)))
   = concat (map (\<lambda>w. [a w - d1, b w - d2]) ws)"
  by (induction ws) (simp_all add: vsub_def vadd_def vscale_def)

lemma dot_self_nonneg: "0 \<le> dot x x"
  by (induction x) (simp_all add: dot_Nil_left dot_Cons)

lemma dot_self_zero:
  "dot (concat (map (\<lambda>w. [p w, q w]) ws)) (concat (map (\<lambda>w. [p w, q w]) ws)) = 0
   \<Longrightarrow> \<forall>w\<in>set ws. p w = 0 \<and> q w = 0"
proof (induction ws)
  case Nil
  show ?case by simp
next
  case (Cons w ws)
  define r where "r = dot (concat (map (\<lambda>w. [p w, q w]) ws)) (concat (map (\<lambda>w. [p w, q w]) ws))"
  have nn: "0 \<le> r" unfolding r_def by (rule dot_self_nonneg)
  have "dot (concat (map (\<lambda>w. [p w, q w]) (w # ws))) (concat (map (\<lambda>w. [p w, q w]) (w # ws)))
        = p w * p w + (q w * q w + r)"
    by (simp add: dot_Cons r_def)
  then have e: "p w * p w + (q w * q w + r) = 0" using Cons.prems by simp
  have pp: "0 \<le> p w * p w" and qq: "0 \<le> q w * q w" by simp_all
  have z: "p w * p w = 0" "q w * q w = 0" "r = 0" using e nn pp qq by linarith+
  have "\<forall>w\<in>set ws. p w = 0 \<and> q w = 0" by (rule Cons.IH) (use z(3) in \<open>simp add: r_def\<close>)
  then show ?case using z by simp
qed

subsection \<open>The three steps of the recursion\<close>

text \<open>One step of the recursion when the new column has a part outside the span of the earlier ones.\<close>

lemma greville_step_indep:
  assumes "d = map (\<lambda>row. dot row a) P"
      and "c = vsub a (lincomb m d cols)"
      and "dot c c \<noteq> 0"
  shows "greville_step m (cols, P) a =
     (cols @ [a], map2 (\<lambda>row dj. vsub row (vscale dj (vscale (1 / dot c c) c))) P d
                  @ [vscale (1 / dot c c) c])"
  using assms by (simp add: greville_step_def Let_def)

lemma vscale_zero: "vscale 0 x = replicate (length x) 0"
  by (induction x) (simp_all add: vscale_def)

lemma vsub_zero_right: "length x = m \<Longrightarrow> vsub x (replicate m 0) = x"
  by (induction x arbitrary: m) (auto simp: vsub_def)

lemma vadd_zero_right: "length x = m \<Longrightarrow> vadd x (replicate m 0) = x"
  by (induction x arbitrary: m) (auto simp: vadd_def)

lemma pseudo_inverse_ik_rows:
  fixes ws :: "Translation2d list" and cor :: Translation2d
  defines "m \<equiv> 2 * length ws"
  defines "n \<equiv> real (length ws)"
  defines "c1 \<equiv> concat (map (\<lambda>w. [1, 0::real]) ws)"
  defines "c2 \<equiv> concat (map (\<lambda>w. [0, 1::real]) ws)"
  defines "c3 \<equiv> concat (map (\<lambda>w. [- y_t w + y_t cor, x_t w - x_t cor]) ws)"
  defines "b1 \<equiv> vscale (1 / n) c1"
  defines "b2 \<equiv> vscale (1 / n) c2"
  defines "d1 \<equiv> dot c1 c3 / n"
  defines "d2 \<equiv> dot c2 c3 / n"
  defines "c \<equiv> concat (map (\<lambda>w. [(- y_t w + y_t cor) - d1, (x_t w - x_t cor) - d2]) ws)"
  assumes ne: "ws \<noteq> []" and indep: "dot c c \<noteq> 0"
  shows "pseudo_inverse (ik_matrix ws cor) =
           [vsub b1 (vscale d1 (vscale (1 / dot c c) c)),
            vsub b2 (vscale d2 (vscale (1 / dot c c) c)),
            vscale (1 / dot c c) c]"
proof -
  have n0: "n \<noteq> 0" using ne by (simp add: n_def)
  have l1: "length c1 = m" and l2: "length c2 = m" and l3: "length c3 = m" and lc: "length c = m"
    by (simp_all add: c1_def c2_def c3_def c_def m_def length_concat2)
  have g11: "dot c1 c1 = n" and g22: "dot c2 c2 = n" and g12: "dot c1 c2 = 0" and g21: "dot c2 c1 = 0"
    by (simp_all add: c1_def c2_def n_def gram_11 gram_22 gram_12 gram_21)
  have lb: "length b1 = m" "length b2 = m" by (simp_all add: b1_def b2_def length_vscale l1 l2)
  have z: "\<And>x. length x = m \<Longrightarrow> vsub x (replicate m 0) = x" by (rule vsub_zero_right)
  \<comment> \<open>first column\<close>
  have s1: "greville_step m ([], []) c1 = ([c1], [b1])"
    using n0 by (simp add: greville_step_def Let_def z l1 g11 b1_def)
  \<comment> \<open>second column\<close>
  have d12: "dot b1 c2 = 0" by (simp add: b1_def dot_vscale_left g12)
  have e2: "vsub c2 (lincomb m [dot b1 c2] [c1]) = c2"
    by (simp add: d12 vscale_zero l1 l2 vadd_zero_right vsub_zero_right)
  have s2: "greville_step m ([c1], [b1]) c2 = ([c1, c2], [b1, b2])"
  proof -
    have "greville_step m ([c1], [b1]) c2 =
       ([c1] @ [c2], map2 (\<lambda>row dj. vsub row (vscale dj (vscale (1 / dot c2 c2) c2))) [b1] [dot b1 c2]
                  @ [vscale (1 / dot c2 c2) c2])"
      by (rule greville_step_indep[OF _ e2[symmetric]]) (simp_all add: g22 n0)
    moreover have "vsub b1 (vscale 0 (vscale (1 / n) c2)) = b1"
      by (simp add: vscale_zero length_vscale l2 lb vsub_zero_right)
    ultimately show ?thesis by (simp add: g22 b2_def d12)
  qed
  \<comment> \<open>third column\<close>
  have d: "map (\<lambda>row. dot row c3) [b1, b2] = [d1, d2]"
    by (simp add: b1_def b2_def d1_def d2_def dot_vscale_left)
  have e3: "vsub c3 (lincomb m [d1, d2] [c1, c2]) = c"
    unfolding c_def c1_def c2_def c3_def m_def
    using residual_entries[of "\<lambda>w. - y_t w + y_t cor" "\<lambda>w. x_t w - x_t cor" ws d1 d2]
    by simp
  have s3: "greville_step m ([c1, c2], [b1, b2]) c3 =
       ([c1, c2] @ [c3], map2 (\<lambda>row dj. vsub row (vscale dj (vscale (1 / dot c c) c))) [b1, b2] [d1, d2]
                  @ [vscale (1 / dot c c) c])"
    by (rule greville_step_indep[OF d[symmetric] e3[symmetric] indep])
  have cols: "columns (ik_matrix ws cor) = [c1, c2, c3]"
    by (simp add: columns_ik[OF ne] c1_def c2_def c3_def)
  show ?thesis
    by (simp add: pseudo_inverse_def cols length_ik s1 s2 s3 flip: m_def)
qed

subsection \<open>Forward after inverse\<close>

lemma isclose_zero: "isclose a 0 \<longleftrightarrow> a = 0"
  by (auto simp: isclose_def max_def abs_if split: if_splits)

lemma tr_eq_identity: "tr_eq t identity_translation \<longleftrightarrow> t = identity_translation"
  by (auto simp: tr_eq_def identity_translation_def Translation2d_init_def isclose_zero)

lemma hypot_x0: "hypot x 0 = \<bar>x\<bar>"
  by (simp add: hypot_def)

lemma xy_recover:
  assumes "hypot x y > 1 / 10 ^ 6 \<or> (y = 0 \<and> 0 \<le> x)"
  shows "hypot x y * cos_r (Rotation2d_xy x y) = x \<and> hypot x y * sin_r (Rotation2d_xy x y) = y"
proof (cases "hypot x y > 1 / 10 ^ 6")
  case True
  then have "hypot x y \<noteq> 0" by auto
  then show ?thesis using True by (simp add: Rotation2d_xy_def Let_def)
next
  case False
  then have "y = 0 \<and> 0 \<le> x" using assms by simp
  then show ?thesis using False by (simp add: Rotation2d_xy_def Let_def hypot_x0)
qed

lemma module_vector_decompose:
  "concat (map (\<lambda>w. [a + p w * c, b + q w * c]) ws) =
     vadd (vscale a (concat (map (\<lambda>w. [1, 0]) ws)))
       (vadd (vscale b (concat (map (\<lambda>w. [0, 1]) ws)))
          (vscale c (concat (map (\<lambda>w. [p w, q w]) ws))))"
  by (induction ws) (simp_all add: vadd_def vscale_def algebra_simps)

lemma pseudo_inverse_ik_left_inverse:
  fixes ws :: "Translation2d list" and cor :: Translation2d
  assumes two: "\<exists>a\<in>set ws. \<exists>b\<in>set ws. a \<noteq> b"
  shows "map (\<lambda>row. dot row (concat (map (\<lambda>w. [a + (- y_t w + y_t cor) * c0, b + (x_t w - x_t cor) * c0]) ws)))
           (pseudo_inverse (ik_matrix ws cor)) = [a, b, c0]"
proof -
  define m where "m = 2 * length ws"
  define n where "n = real (length ws)"
  define c1 where "c1 = concat (map (\<lambda>w. [1, 0::real]) ws)"
  define c2 where "c2 = concat (map (\<lambda>w. [0, 1::real]) ws)"
  define c3 where "c3 = concat (map (\<lambda>w. [- y_t w + y_t cor, x_t w - x_t cor]) ws)"
  define b1 where "b1 = vscale (1 / n) c1"
  define b2 where "b2 = vscale (1 / n) c2"
  define d1 where "d1 = dot c1 c3 / n"
  define d2 where "d2 = dot c2 c3 / n"
  define c where "c = concat (map (\<lambda>w. [(- y_t w + y_t cor) - d1, (x_t w - x_t cor) - d2]) ws)"
  define cc where "cc = dot c c"
  have ne: "ws \<noteq> []" using two by auto
  have n0: "n \<noteq> 0" using ne by (simp add: n_def)
  have l: "length c1 = m" "length c2 = m" "length c3 = m" "length c = m"
    by (simp_all add: c1_def c2_def c3_def c_def m_def length_concat2)
  have g: "dot c1 c1 = n" "dot c2 c2 = n" "dot c1 c2 = 0" "dot c2 c1 = 0"
    by (simp_all add: c1_def c2_def n_def gram_11 gram_22 gram_12 gram_21)
  have indep: "cc \<noteq> 0"
  proof
    assume "cc = 0"
    then have "\<forall>w\<in>set ws. (- y_t w + y_t cor) - d1 = 0 \<and> (x_t w - x_t cor) - d2 = 0"
      unfolding cc_def c_def by (rule dot_self_zero)
    then have "\<forall>w\<in>set ws. y_t w = y_t cor - d1 \<and> x_t w = x_t cor + d2" by auto
    then have "\<forall>u\<in>set ws. \<forall>v\<in>set ws. u = v" by simp
    then show False using two by blast
  qed
  have cdef: "c = vsub c3 (vadd (vscale d1 c1) (vadd (vscale d2 c2) (replicate m 0)))"
    unfolding c_def c1_def c2_def c3_def m_def
    using residual_entries[of "\<lambda>w. - y_t w + y_t cor" "\<lambda>w. x_t w - x_t cor" ws d1 d2]
    by simp
  have cc1: "dot c c1 = 0"
    unfolding cdef using n0 by (simp add: dot_bilinear l g d1_def dot_commute[of c3 c1])
  have cc2: "dot c c2 = 0"
    unfolding cdef using n0 by (simp add: dot_bilinear l g d2_def dot_commute[of c3 c2])
  have "dot c c = dot c c3 - d1 * dot c c1 - d2 * dot c c2"
    by (subst (2) cdef) (simp add: dot_bilinear l)
  then have cc3: "dot c c3 = cc" by (simp add: cc1 cc2 cc_def)
  have rows: "pseudo_inverse (ik_matrix ws cor) =
           [vsub b1 (vscale d1 (vscale (1 / cc) c)),
            vsub b2 (vscale d2 (vscale (1 / cc) c)),
            vscale (1 / cc) c]"
    unfolding cc_def b1_def b2_def d1_def d2_def c_def c1_def c2_def c3_def n_def
    by (rule pseudo_inverse_ik_rows[OF ne]) (use indep in \<open>simp add: cc_def c_def d1_def d2_def c1_def c2_def c3_def n_def\<close>)
  have mv: "concat (map (\<lambda>w. [a + (- y_t w + y_t cor) * c0, b + (x_t w - x_t cor) * c0]) ws)
      = vadd (vscale a c1) (vadd (vscale b c2) (vscale c0 c3))"
    unfolding c1_def c2_def c3_def by (rule module_vector_decompose)
  have lb: "length b1 = m" "length b2 = m"
    by (simp_all add: b1_def b2_def length_vscale l)
  have r3: "dot (vscale (1 / cc) c) (vadd (vscale a c1) (vadd (vscale b c2) (vscale c0 c3))) = c0"
    using indep by (simp add: dot_bilinear l cc1 cc2 cc3)
  have r1: "dot (vsub b1 (vscale d1 (vscale (1 / cc) c))) (vadd (vscale a c1) (vadd (vscale b c2) (vscale c0 c3))) = a"
    using indep n0 by (simp add: dot_bilinear l lb cc1 cc2 cc3 b1_def g d1_def)
  have r2: "dot (vsub b2 (vscale d2 (vscale (1 / cc) c))) (vadd (vscale a c1) (vadd (vscale b c2) (vscale c0 c3))) = b"
    using indep n0 by (simp add: dot_bilinear l lb cc1 cc2 cc3 b2_def g d2_def)
  show ?thesis
    unfolding rows mv using r1 r2 r3 by simp
qed

section \<open>The recursion computes the Moore-Penrose pseudoinverse\<close>

text \<open>
  For every matrix whose rows all have one positive length, the matrix that
  \<open>pseudo_inverse\<close> computes satisfies the four Penrose conditions: it is the Moore-Penrose
  pseudoinverse. The conditions are kept along the recursion in the form \<open>penrose_inv\<close>,
  with the matrix given by its columns and the conditions stated on test vectors.
\<close>

subsection \<open>Vectors\<close>

lemma nth_vadd: "k < length x \<Longrightarrow> k < length y \<Longrightarrow> vadd x y ! k = x ! k + y ! k"
  by (simp add: vadd_def)

lemma nth_vsub: "k < length x \<Longrightarrow> k < length y \<Longrightarrow> vsub x y ! k = x ! k - y ! k"
  by (simp add: vsub_def)

lemma nth_vscale: "k < length x \<Longrightarrow> vscale c x ! k = c * x ! k"
  by (simp add: vscale_def)

lemma dot_append:
  "length xs = length ys \<Longrightarrow> dot (xs @ xs') (ys @ ys') = dot xs ys + dot xs' ys'"
  by (simp add: dot_def)

lemma dot_single: "dot [x] [y] = x * y"
  by (simp add: dot_def)

lemma length_apply_m: "length (apply_m M v) = length M"
  by (simp add: apply_m_def)

lemma apply_m_append: "apply_m (A @ [a]) x = apply_m A x @ [dot a x]"
  by (simp add: apply_m_def)

lemma dot_lincomb:
  "\<forall>v\<in>set vs. length v = m \<Longrightarrow> dot (lincomb m ds vs) y = dot ds (apply_m vs y)"
proof (induction m ds vs rule: lincomb.induct)
  case (1 m d ds v vs)
  have l: "length (vscale d v) = length (lincomb m ds vs)"
    using 1(2) by (simp add: length_vscale length_lincomb)
  show ?case
    using 1 by (simp add: dot_vadd_left[OF l] dot_vscale_left apply_m_def dot_Cons)
qed (simp_all add: dot_zero_left dot_Nil_left apply_m_def dot_Nil_right)

lemma dot_self_zero_all: "dot x x = 0 \<Longrightarrow> length y = length x \<Longrightarrow> dot x y = 0"
proof (induction x arbitrary: y)
  case Nil
  show ?case by (simp add: dot_Nil_left)
next
  case (Cons a x)
  obtain b y' where y: "y = b # y'" using Cons.prems(2) by (cases y) auto
  have nn: "0 \<le> dot x x" by (rule dot_self_nonneg)
  have e: "a * a + dot x x = 0" using Cons.prems(1) by (simp add: dot_Cons)
  have aa: "0 \<le> a * a" by simp
  have z: "a * a = 0" "dot x x = 0" using e nn aa by linarith+
  have "dot x y' = 0" by (rule Cons.IH[OF z(2)]) (use Cons.prems(2) y in simp)
  then show ?case using z(1) by (simp add: y dot_Cons)
qed

lemma apply_m_zero:
  "(\<And>r. r \<in> set M \<Longrightarrow> dot r v = 0) \<Longrightarrow> apply_m M v = replicate (length M) 0"
  by (induction M) (simp_all add: apply_m_def)

lemma vsub_map: "vsub (map f M) (map g M) = map (\<lambda>r. f r - g r) M"
  by (induction M) (simp_all add: vsub_def)

lemma vscale_map: "vscale k (map f M) = map (\<lambda>r. k * f r) M"
  by (simp add: vscale_def)

lemma apply_m_vsub:
  "length x = length y \<Longrightarrow> apply_m M (vsub x y) = vsub (apply_m M x) (apply_m M y)"
  unfolding apply_m_def vsub_map by (simp add: dot_vsub_right)

lemma apply_m_vscale:
  "apply_m M (vscale k x) = vscale k (apply_m M x)"
  unfolding apply_m_def vscale_map by (simp add: dot_vscale_right)

subsection \<open>One step of the recursion\<close>

text \<open>
  With \<open>c\<close> the part of the new column \<open>a\<close> outside the span of the earlier columns, \<open>c\<close> is
  orthogonal to the earlier columns and to the rows of \<open>P\<close>. For the new matrices the
  product \<open>A P\<close> gains the term \<open>c b\<^sup>T\<close>, and each of the four conditions reduces to a
  property of the new row \<open>b\<close>, which is checked in the two cases of the recursion.
\<close>

lemma map2_map_right: "map2 f xs (map g xs) = map (\<lambda>x. f x (g x)) xs"
  by (induction xs) simp_all

lemma greville_step_rows:
  "greville_step m (cols, P) a =
     (let d = apply_m P a; c = vsub a (lincomb m d cols);
          b = (if dot c c \<noteq> 0 then vscale (1 / dot c c) c
               else vscale (1 / (1 + dot d d)) (lincomb m d P))
      in (cols @ [a], map (\<lambda>p. vsub p (vscale (dot p a) b)) P @ [b]))"
  by (simp add: greville_step_def Let_def apply_m_def map2_map_right)

lemma greville_step_penrose:
  assumes ok: "greville_ok m st" and inv: "penrose_inv m st" and la: "length a = m"
  shows "penrose_inv m (greville_step m st a)"
proof -
  obtain cols P where st: "st = (cols, P)" by (cases st)
  have lk: "length cols = length P" and lc: "\<And>c. c \<in> set cols \<Longrightarrow> length c = m"
    and lp: "\<And>p. p \<in> set P \<Longrightarrow> length p = m"
    using ok by (auto simp: greville_ok_def st list_all_iff)
  have J1: "\<And>c y. c \<in> set cols \<Longrightarrow> length y = m \<Longrightarrow> dot (apply_m P c) (apply_m cols y) = dot c y"
    using inv by (simp add: penrose_inv_def st)
  have J2: "\<And>p y. p \<in> set P \<Longrightarrow> length y = m \<Longrightarrow> dot (apply_m cols p) (apply_m P y) = dot p y"
    using inv by (simp add: penrose_inv_def st)
  have J3: "\<And>i j. i < length P \<Longrightarrow> j < length P \<Longrightarrow> dot (P ! i) (cols ! j) = dot (P ! j) (cols ! i)"
    using inv by (simp add: penrose_inv_def st)
  have J4: "\<And>x y. length x = m \<Longrightarrow> length y = m \<Longrightarrow>
      dot (apply_m P x) (apply_m cols y) = dot (apply_m P y) (apply_m cols x)"
    using inv by (simp add: penrose_inv_def st)
  define d where "d = apply_m P a"
  define L where "L = lincomb m d cols"
  define c where "c = vsub a L"
  define b where "b = (if dot c c \<noteq> 0 then vscale (1 / dot c c) c
               else vscale (1 / (1 + dot d d)) (lincomb m d P))"
  define P' where "P' = map (\<lambda>p. vsub p (vscale (dot p a) b)) P @ [b]"
  have step: "greville_step m st a = (cols @ [a], P')"
    by (simp add: greville_step_rows st Let_def d_def c_def L_def b_def P'_def)
  have ld: "length d = length P" by (simp add: d_def length_apply_m)
  have lL: "length L = m" unfolding L_def by (rule length_lincomb) (use lc in auto)
  have lcc: "length c = m" by (simp add: c_def length_vsub la lL)
  have lLP: "length (lincomb m d P) = m" by (rule length_lincomb) (use lp in auto)
  have lb: "length b = m" by (simp add: b_def length_vscale lcc lLP)
  have Ly: "\<And>y. dot L y = dot d (apply_m cols y)"
    unfolding L_def by (rule dot_lincomb) (use lc in auto)
  have cy: "\<And>y. dot c y = dot a y - dot d (apply_m cols y)"
    by (simp add: c_def dot_vsub_left la lL Ly)
  have apC: "\<And>x. apply_m (cols @ [a]) x = apply_m cols x @ [dot a x]"
    by (rule apply_m_append)
  have apP: "\<And>x. apply_m P' x = vsub (apply_m P x) (vscale (dot b x) d) @ [dot b x]"
  proof -
    fix x
    have "map (\<lambda>p. dot (vsub p (vscale (dot p a) b)) x) P = map (\<lambda>p. dot p x - dot b x * dot p a) P"
      by (rule map_cong) (simp_all add: dot_vsub_left dot_vscale_left length_vscale lp lb)
    then show "apply_m P' x = vsub (apply_m P x) (vscale (dot b x) d) @ [dot b x]"
      by (simp add: P'_def apply_m_def d_def vscale_map vsub_map)
  qed
  have lsub: "\<And>x. length (vsub (apply_m P x) (vscale (dot b x) d)) = length (apply_m cols x)"
    by (simp add: length_vsub length_vscale length_apply_m ld lk)
  have F': "\<And>x y. dot (apply_m P' x) (apply_m (cols @ [a]) y) =
      dot (apply_m P x) (apply_m cols y) + dot b x * dot c y"
  proof -
    fix x y
    have "dot (apply_m P' x) (apply_m (cols @ [a]) y) =
        dot (vsub (apply_m P x) (vscale (dot b x) d)) (apply_m cols y) + dot b x * dot a y"
      unfolding apP apC by (simp add: dot_append length_vsub length_vscale length_apply_m ld lk dot_single)
    also have "dot (vsub (apply_m P x) (vscale (dot b x) d)) (apply_m cols y) =
        dot (apply_m P x) (apply_m cols y) - dot b x * dot d (apply_m cols y)"
      by (simp add: dot_vsub_left dot_vscale_left length_vscale length_apply_m ld)
    finally show "dot (apply_m P' x) (apply_m (cols @ [a]) y) =
      dot (apply_m P x) (apply_m cols y) + dot b x * dot c y"
      by (simp add: cy algebra_simps)
  qed
  have H': "\<And>p y. dot (apply_m (cols @ [a]) p) (apply_m P' y) =
      dot (apply_m cols p) (apply_m P y) + dot b y * dot c p"
  proof -
    fix p y
    have "dot (apply_m (cols @ [a]) p) (apply_m P' y) =
        dot (apply_m cols p) (vsub (apply_m P y) (vscale (dot b y) d)) + dot a p * dot b y"
      unfolding apP apC by (simp add: dot_append length_vsub length_vscale length_apply_m ld lk dot_single)
    also have "dot (apply_m cols p) (vsub (apply_m P y) (vscale (dot b y) d)) =
        dot (apply_m cols p) (apply_m P y) - dot b y * dot (apply_m cols p) d"
      by (simp add: dot_vsub_right dot_vscale_right length_vscale length_apply_m ld)
    finally show "dot (apply_m (cols @ [a]) p) (apply_m P' y) =
      dot (apply_m cols p) (apply_m P y) + dot b y * dot c p"
      by (simp add: cy algebra_simps dot_commute[of d])
  qed
  have dP: "\<And>p. p \<in> set P \<Longrightarrow> dot (apply_m cols p) d = dot p a"
    unfolding d_def using J2 la by simp
  have cp: "\<And>p. p \<in> set P \<Longrightarrow> dot c p = 0"
    using dP by (simp add: cy dot_commute[of d] dot_commute[of a])
  have cc1: "\<And>col. col \<in> set cols \<Longrightarrow> dot c col = 0"
  proof -
    fix col assume m: "col \<in> set cols"
    have "dot d (apply_m cols col) = dot (apply_m P col) (apply_m cols a)"
      unfolding d_def by (rule J4[OF la lc[OF m]])
    also have "\<dots> = dot col a" by (rule J1[OF m la])
    finally show "dot c col = 0" by (simp add: cy dot_commute[of a])
  qed
  have cac: "apply_m cols c = replicate (length cols) 0"
    by (rule apply_m_zero) (simp add: dot_commute[of _ c] cc1)
  have Pc: "apply_m P c = replicate (length P) 0"
    by (rule apply_m_zero) (simp add: dot_commute[of _ c] cp)
  have ca: "dot c a = dot c c"
  proof -
    have "dot c (vsub a L) = dot c a - dot c L" by (simp add: dot_vsub_right la lL)
    then have "dot c c = dot c a - dot c L" by (simp flip: c_def)
    moreover have "dot c L = 0" by (simp add: dot_commute[of c L] Ly cac dot_zero_right)
    ultimately show ?thesis by simp
  qed
  have bcomb: "\<And>y. dot (lincomb m d P) y = dot d (apply_m P y)"
    by (rule dot_lincomb) (use lp in auto)
  have new1: "\<And>col y. col \<in> set cols \<Longrightarrow> length y = m \<Longrightarrow> dot b col * dot c y = 0 \<Longrightarrow>
      dot (apply_m P' col) (apply_m (cols @ [a]) y) = dot col y"
    by (simp add: F' J1)
  have Fa: "\<And>y. dot (apply_m P a) (apply_m cols y) = dot a y - dot c y"
    by (simp add: cy d_def)
  have new1a: "\<And>y. length y = m \<Longrightarrow> dot b a * dot c y = dot c y \<Longrightarrow>
      dot (apply_m P' a) (apply_m (cols @ [a]) y) = dot a y"
    by (simp add: F' Fa)
  have Hsub: "\<And>p k y. p \<in> set P \<Longrightarrow> length y = m \<Longrightarrow>
      dot (apply_m cols (vsub p (vscale k b))) (apply_m P y) =
      dot p y - k * dot (apply_m cols b) (apply_m P y)"
  proof -
    fix p :: vec and k :: real and y :: vec assume p: "p \<in> set P" and y: "length y = m"
    have "apply_m cols (vsub p (vscale k b)) = vsub (apply_m cols p) (vscale k (apply_m cols b))"
      by (simp add: apply_m_vsub apply_m_vscale length_vscale lp[OF p] lb)
    then show "dot (apply_m cols (vsub p (vscale k b))) (apply_m P y) =
      dot p y - k * dot (apply_m cols b) (apply_m P y)"
      by (simp add: dot_vsub_left dot_vscale_left length_vscale length_apply_m J2[OF p y])
  qed
  have csub: "\<And>p k. p \<in> set P \<Longrightarrow> dot c (vsub p (vscale k b)) = - k * dot c b"
    by (simp add: dot_vsub_right dot_vscale_right length_vscale lp lb cp)
  have new2: "\<And>p y. p \<in> set P \<Longrightarrow> length y = m \<Longrightarrow>
      dot (apply_m cols b) (apply_m P y) + dot b y * dot c b = dot b y \<Longrightarrow>
      dot (apply_m (cols @ [a]) (vsub p (vscale (dot p a) b))) (apply_m P' y) =
      dot (vsub p (vscale (dot p a) b)) y"
  proof -
    fix p :: vec and y :: vec assume p: "p \<in> set P" and y: "length y = m"
      and h: "dot (apply_m cols b) (apply_m P y) + dot b y * dot c b = dot b y"
    have "dot (apply_m (cols @ [a]) (vsub p (vscale (dot p a) b))) (apply_m P' y) =
        dot p y - dot p a * dot (apply_m cols b) (apply_m P y) + dot b y * (- dot p a * dot c b)"
      by (simp add: H' Hsub[OF p y] csub[OF p])
    also have "\<dots> = dot p y - dot p a * (dot (apply_m cols b) (apply_m P y) + dot b y * dot c b)"
      by (simp add: algebra_simps)
    also have "\<dots> = dot p y - dot p a * dot b y" by (simp add: h)
    finally show "dot (apply_m (cols @ [a]) (vsub p (vscale (dot p a) b))) (apply_m P' y) =
      dot (vsub p (vscale (dot p a) b)) y"
      by (simp add: dot_vsub_left dot_vscale_left length_vscale lp[OF p] lb)
  qed
  have new2b: "\<And>y. length y = m \<Longrightarrow>
      dot (apply_m cols b) (apply_m P y) + dot b y * dot c b = dot b y \<Longrightarrow>
      dot (apply_m (cols @ [a]) b) (apply_m P' y) = dot b y"
    by (simp add: H')
  have entry: "\<And>i v. i < length P \<Longrightarrow>
      dot (P' ! i) v = dot (P ! i) v - dot (P ! i) a * dot b v"
  proof -
    fix i and v :: vec assume i: "i < length P"
    have "P' ! i = vsub (P ! i) (vscale (dot (P ! i) a) b)"
      using i by (simp add: P'_def nth_append)
    then show "dot (P' ! i) v = dot (P ! i) v - dot (P ! i) a * dot b v"
      using i by (simp add: dot_vsub_left dot_vscale_left length_vscale lp lb)
  qed
  have last: "P' ! length P = b" "(cols @ [a]) ! length P = a"
    by (simp_all add: P'_def nth_append lk)
  have lP': "length P' = Suc (length P)" by (simp add: P'_def)
  have new3: "\<And>\<kappa>. (\<And>j. j < length P \<Longrightarrow> dot b (cols ! j) = \<kappa> * dot (P ! j) a) \<Longrightarrow> 1 - dot b a = \<kappa> \<Longrightarrow>
      (\<forall>i<length P'. \<forall>j<length P'. dot (P' ! i) ((cols @ [a]) ! j) = dot (P' ! j) ((cols @ [a]) ! i))"
  proof (intro allI impI)
    fix \<kappa> i j
    assume h1: "\<And>j. j < length P \<Longrightarrow> dot b (cols ! j) = \<kappa> * dot (P ! j) a" and h2: "1 - dot b a = \<kappa>"
      and i: "i < length P'" and j: "j < length P'"
    have ba: "dot b a = 1 - \<kappa>" using h2 by simp
    have inner: "\<And>i j. i < length P \<Longrightarrow> j < length P \<Longrightarrow>
        dot (P' ! i) ((cols @ [a]) ! j) = dot (P' ! j) ((cols @ [a]) ! i)"
    proof -
      fix i j assume i: "i < length P" and j: "j < length P"
      have "dot (P' ! i) ((cols @ [a]) ! j) = dot (P ! i) (cols ! j) - dot (P ! i) a * (\<kappa> * dot (P ! j) a)"
        using i j by (simp add: entry nth_append lk h1)
      moreover have "dot (P' ! j) ((cols @ [a]) ! i) = dot (P ! j) (cols ! i) - dot (P ! j) a * (\<kappa> * dot (P ! i) a)"
        using i j by (simp add: entry nth_append lk h1)
      ultimately show "dot (P' ! i) ((cols @ [a]) ! j) = dot (P' ! j) ((cols @ [a]) ! i)"
        using J3[OF i j] by simp
    qed
    have outer: "\<And>i. i < length P \<Longrightarrow>
        dot (P' ! i) ((cols @ [a]) ! length P) = dot (P' ! length P) ((cols @ [a]) ! i)"
    proof -
      fix i assume i: "i < length P"
      have "dot (P' ! i) ((cols @ [a]) ! length P) = dot (P ! i) a - dot (P ! i) a * (1 - \<kappa>)"
        using i by (simp add: entry last ba)
      moreover have "dot (P' ! length P) ((cols @ [a]) ! i) = \<kappa> * dot (P ! i) a"
        using i by (simp add: last nth_append lk h1)
      ultimately show "dot (P' ! i) ((cols @ [a]) ! length P) = dot (P' ! length P) ((cols @ [a]) ! i)"
        by (simp add: algebra_simps)
    qed
    have ci: "i < length P \<or> i = length P" and cj: "j < length P \<or> j = length P"
      using i j by (auto simp: lP')
    show "dot (P' ! i) ((cols @ [a]) ! j) = dot (P' ! j) ((cols @ [a]) ! i)"
      using ci cj inner[of i j] outer[of i] outer[of j] by auto
  qed
  have assemble: "(\<And>col y. col \<in> set cols \<Longrightarrow> length y = m \<Longrightarrow> dot b col * dot c y = 0) \<Longrightarrow>
      (\<And>y. length y = m \<Longrightarrow> dot b a * dot c y = dot c y) \<Longrightarrow>
      (\<And>y. length y = m \<Longrightarrow> dot (apply_m cols b) (apply_m P y) + dot b y * dot c b = dot b y) \<Longrightarrow>
      (\<And>j. j < length P \<Longrightarrow> dot b (cols ! j) = \<kappa> * dot (P ! j) a) \<Longrightarrow> 1 - dot b a = \<kappa> \<Longrightarrow>
      (\<And>x y. length x = m \<Longrightarrow> length y = m \<Longrightarrow> dot b x * dot c y = dot b y * dot c x) \<Longrightarrow>
      penrose_inv m (cols @ [a], P')" for \<kappa>
  proof -
    assume a1: "\<And>col y. col \<in> set cols \<Longrightarrow> length y = m \<Longrightarrow> dot b col * dot c y = 0"
      and a2: "\<And>y. length y = m \<Longrightarrow> dot b a * dot c y = dot c y"
      and a3: "\<And>y. length y = m \<Longrightarrow> dot (apply_m cols b) (apply_m P y) + dot b y * dot c b = dot b y"
      and a4: "\<And>j. j < length P \<Longrightarrow> dot b (cols ! j) = \<kappa> * dot (P ! j) a" and a5: "1 - dot b a = \<kappa>"
      and a6: "\<And>x y. length x = m \<Longrightarrow> length y = m \<Longrightarrow> dot b x * dot c y = dot b y * dot c x"
    have K1: "\<forall>col\<in>set (cols @ [a]). \<forall>y. length y = m \<longrightarrow>
        dot (apply_m P' col) (apply_m (cols @ [a]) y) = dot col y"
      using new1 new1a a1 a2 by auto
    have K2: "\<forall>p\<in>set P'. \<forall>y. length y = m \<longrightarrow>
        dot (apply_m (cols @ [a]) p) (apply_m P' y) = dot p y"
    proof (intro ballI allI impI)
      fix p :: vec and y :: vec assume p: "p \<in> set P'" and y: "length y = m"
      then have "(\<exists>q\<in>set P. p = vsub q (vscale (dot q a) b)) \<or> p = b"
        by (auto simp: P'_def)
      then show "dot (apply_m (cols @ [a]) p) (apply_m P' y) = dot p y"
        using new2[OF _ y a3[OF y]] new2b[OF y a3[OF y]] by auto
    qed
    have K3: "\<forall>i<length P'. \<forall>j<length P'. dot (P' ! i) ((cols @ [a]) ! j) = dot (P' ! j) ((cols @ [a]) ! i)"
      by (rule new3[of \<kappa>]) (use a4 a5 in auto)
    have K4: "\<forall>x y. length x = m \<longrightarrow> length y = m \<longrightarrow>
        dot (apply_m P' x) (apply_m (cols @ [a]) y) = dot (apply_m P' y) (apply_m (cols @ [a]) x)"
      using J4 a6 by (simp add: F')
    show "penrose_inv m (cols @ [a], P')"
      unfolding penrose_inv_def fst_conv snd_conv using K1 K2 K3 K4 by blast
  qed
  show ?thesis
  proof (cases "dot c c = 0")
    case False
    define g where "g = dot c c"
    have g0: "g \<noteq> 0" using False by (simp add: g_def)
    have bb: "b = vscale (1 / g) c" using False by (simp add: b_def g_def)
    have bx: "\<And>x. dot b x = dot c x / g" by (simp add: bb dot_vscale_left)
    have ba: "dot b a = 1" using g0 by (simp add: bx ca flip: g_def)
    have cb: "dot c b = 1" using g0 by (simp add: dot_commute[of c b] bx flip: g_def)
    have acb: "apply_m cols b = replicate (length cols) 0"
      by (rule apply_m_zero) (simp add: dot_commute[of _ b] bx cc1)
    have "penrose_inv m (cols @ [a], P')"
    proof (rule assemble[of 0])
      show "\<And>col y. col \<in> set cols \<Longrightarrow> length y = m \<Longrightarrow> dot b col * dot c y = 0"
        by (simp add: bx cc1)
      show "\<And>y. length y = m \<Longrightarrow> dot b a * dot c y = dot c y" by (simp add: ba)
      show "\<And>y. length y = m \<Longrightarrow> dot (apply_m cols b) (apply_m P y) + dot b y * dot c b = dot b y"
        by (simp add: acb dot_zero_left cb)
      show "\<And>j. j < length P \<Longrightarrow> dot b (cols ! j) = 0 * dot (P ! j) a"
        by (simp add: bx cc1 lk)
      show "1 - dot b a = 0" by (simp add: ba)
      show "\<And>x y. length x = m \<Longrightarrow> length y = m \<Longrightarrow> dot b x * dot c y = dot b y * dot c x"
        by (simp add: bx)
    qed
    then show ?thesis by (simp add: step)
  next
    case True
    have c0: "\<And>y. length y = m \<Longrightarrow> dot c y = 0"
      by (rule dot_self_zero_all[OF True]) (simp add: lcc)
    define dl where "dl = dot d d"
    have dp: "0 < 1 + dl" using dot_self_nonneg[of d] by (simp add: dl_def)
    have bb: "b = vscale (1 / (1 + dl)) (lincomb m d P)" using True by (simp add: b_def dl_def)
    have bx: "\<And>x. dot b x = dot d (apply_m P x) / (1 + dl)"
      by (simp add: bb dot_vscale_left bcomb)
    have ba: "dot b a = dl / (1 + dl)" by (simp add: bx dl_def d_def)
    have sw: "\<And>j. j < length P \<Longrightarrow> apply_m P (cols ! j) = apply_m cols (P ! j)"
    proof -
      fix j assume j: "j < length P"
      show "apply_m P (cols ! j) = apply_m cols (P ! j)"
      proof (rule nth_equalityI)
        show "length (apply_m P (cols ! j)) = length (apply_m cols (P ! j))"
          by (simp add: length_apply_m lk)
        fix i assume "i < length (apply_m P (cols ! j))"
        then have i: "i < length P" by (simp add: length_apply_m)
        show "apply_m P (cols ! j) ! i = apply_m cols (P ! j) ! i"
          using i j J3[OF i j] by (simp add: apply_m_def lk dot_commute[of "cols ! i"])
      qed
    qed
    have bc: "\<And>j. j < length P \<Longrightarrow> dot b (cols ! j) = 1 / (1 + dl) * dot (P ! j) a"
    proof -
      fix j assume j: "j < length P"
      have "dot d (apply_m P (cols ! j)) = dot (apply_m cols (P ! j)) d"
        by (simp add: sw[OF j] dot_commute[of d])
      also have "\<dots> = dot (P ! j) a" by (rule dP) (use j in simp)
      finally show "dot b (cols ! j) = 1 / (1 + dl) * dot (P ! j) a" by (simp add: bx)
    qed
    have gam: "\<And>y. length y = m \<Longrightarrow> dot (apply_m cols b) (apply_m P y) = dot b y"
    proof -
      fix y :: vec assume y: "length y = m"
      define Ey where "Ey = lincomb m (apply_m P y) cols"
      have Eyz: "\<And>z. dot Ey z = dot (apply_m P y) (apply_m cols z)"
        unfolding Ey_def by (rule dot_lincomb) (use lc in auto)
      have "apply_m P Ey = apply_m P y"
        unfolding apply_m_def
      proof (rule map_cong[OF refl])
        fix p assume p: "p \<in> set P"
        have "dot p Ey = dot (apply_m cols p) (apply_m P y)"
          by (simp add: dot_commute[of p Ey] Eyz dot_commute[of "apply_m P y"])
        then show "dot p Ey = dot p y" by (simp add: J2[OF p y])
      qed
      then have "dot b Ey = dot b y" by (simp add: bx)
      moreover have "dot (apply_m cols b) (apply_m P y) = dot b Ey"
        by (simp add: dot_commute[of b Ey] Eyz dot_commute[of "apply_m P y"])
      ultimately show "dot (apply_m cols b) (apply_m P y) = dot b y" by simp
    qed
    have "penrose_inv m (cols @ [a], P')"
    proof (rule assemble[of "1 / (1 + dl)"])
      show "\<And>col y. col \<in> set cols \<Longrightarrow> length y = m \<Longrightarrow> dot b col * dot c y = 0"
        by (simp add: c0)
      show "\<And>y. length y = m \<Longrightarrow> dot b a * dot c y = dot c y" by (simp add: c0)
      show "\<And>y. length y = m \<Longrightarrow> dot (apply_m cols b) (apply_m P y) + dot b y * dot c b = dot b y"
        by (simp add: gam c0 lb)
      show "\<And>j. j < length P \<Longrightarrow> dot b (cols ! j) = 1 / (1 + dl) * dot (P ! j) a"
        by (rule bc)
      show "1 - dot b a = 1 / (1 + dl)" using dp by (simp add: ba field_simps)
      show "\<And>x y. length x = m \<Longrightarrow> length y = m \<Longrightarrow> dot b x * dot c y = dot b y * dot c x"
        by (simp add: c0)
    qed
    then show ?thesis by (simp add: step)
  qed
qed

subsection \<open>All columns\<close>

lemma penrose_inv_empty: "penrose_inv m ([], [])"
  by (simp add: penrose_inv_def apply_m_def)

lemma fst_greville_step: "fst (greville_step m st a) = fst st @ [a]"
  by (simp add: greville_step_def Let_def)

lemma greville_fold_penrose:
  "greville_ok m st \<Longrightarrow> penrose_inv m st \<Longrightarrow> \<forall>a\<in>set as. length a = m \<Longrightarrow>
     penrose_inv m (foldl (greville_step m) st as) \<and>
     fst (foldl (greville_step m) st as) = fst st @ as"
proof (induction as arbitrary: st)
  case Nil
  then show ?case by simp
next
  case (Cons a as)
  have la: "length a = m" using Cons.prems(3) by simp
  have ok: "greville_ok m (greville_step m st a)"
    using greville_step_ok[OF Cons.prems(1) la] by simp
  have inv: "penrose_inv m (greville_step m st a)"
    by (rule greville_step_penrose[OF Cons.prems(1) Cons.prems(2) la])
  have "penrose_inv m (foldl (greville_step m) (greville_step m st a) as) \<and>
     fst (foldl (greville_step m) (greville_step m st a) as) = fst (greville_step m st a) @ as"
    by (rule Cons.IH[OF ok inv]) (use Cons.prems(3) in simp)
  then show ?case by (simp add: fst_greville_step)
qed

lemma columns_rows:
  assumes "M \<noteq> []" and "\<forall>row\<in>set M. length row = k"
  shows "columns M = map (\<lambda>j. map (\<lambda>row. row ! j) M) [0..<k]"
proof -
  obtain r rest where e: "M = r # rest" using assms(1) by (cases M) auto
  then have "length r = k" using assms(2) by simp
  then show ?thesis unfolding columns_def e by simp
qed

lemma pseudo_inverse_penrose_inv:
  assumes "M \<noteq> []" and "\<forall>row\<in>set M. length row = k"
  shows "penrose_inv (length M) (columns M, pseudo_inverse M)"
    and "length (pseudo_inverse M) = k"
    and "\<forall>p\<in>set (pseudo_inverse M). length p = length M"
proof -
  have cols: "columns M = map (\<lambda>j. map (\<lambda>row. row ! j) M) [0..<k]"
    by (rule columns_rows[OF assms])
  have ok0: "greville_ok (length M) ([], [])" by (simp add: greville_ok_def)
  have lc: "\<forall>a\<in>set (columns M). length a = length M" by (simp add: cols)
  have f: "penrose_inv (length M) (foldl (greville_step (length M)) ([], []) (columns M)) \<and>
     fst (foldl (greville_step (length M)) ([], []) (columns M)) = fst (([]::vec list), ([]::matrix)) @ columns M"
    by (rule greville_fold_penrose[OF ok0 penrose_inv_empty lc])
  have g: "greville_ok (length M) (foldl (greville_step (length M)) ([], []) (columns M)) \<and>
     length (snd (foldl (greville_step (length M)) ([], []) (columns M))) =
       length (snd (([]::vec list), ([]::matrix))) + length (columns M)"
    by (rule greville_fold_ok[OF ok0 lc])
  define r where "r = foldl (greville_step (length M)) ([], []) (columns M)"
  have "r = (fst r, snd r)" by simp
  then have "r = (columns M, pseudo_inverse M)"
    using f by (simp add: r_def pseudo_inverse_def)
  then show "penrose_inv (length M) (columns M, pseudo_inverse M)" using f by (simp add: r_def)
  show "length (pseudo_inverse M) = k" using g by (simp add: pseudo_inverse_def cols)
  show "\<forall>p\<in>set (pseudo_inverse M). length p = length M"
    using g by (simp add: pseudo_inverse_def greville_ok_def list_all_iff)
qed

lemma nth_lincomb:
  "\<forall>v\<in>set vs. length v = m \<Longrightarrow> t < m \<Longrightarrow> lincomb m ds vs ! t = dot ds (map (\<lambda>v. v ! t) vs)"
proof (induction m ds vs rule: lincomb.induct)
  case (1 m d ds v vs)
  have l: "length (lincomb m ds vs) = m" by (rule length_lincomb) (use 1(2) in simp)
  show ?case
    using 1 l by (simp add: nth_vadd nth_vscale length_vscale dot_Cons)
qed (simp_all add: dot_Nil_left dot_Nil_right)

lemma dot_unit:
  "t < length v \<Longrightarrow> dot v ((replicate (length v) 0)[t := 1]) = v ! t"
proof (induction v arbitrary: t)
  case Nil
  then show ?case by simp
next
  case (Cons a v)
  show ?case
  proof (cases t)
    case 0
    then show ?thesis by (simp add: dot_Cons dot_zero_right)
  next
    case (Suc t')
    then show ?thesis using Cons by (simp add: dot_Cons)
  qed
qed

subsection \<open>The conditions as matrix products\<close>

lemma columns_symmetric:
  assumes "S \<noteq> []" and "length S = n" and "\<forall>row\<in>set S. length row = n"
      and "\<forall>i<n. \<forall>j<n. S ! i ! j = S ! j ! i"
  shows "columns S = S"
proof -
  have c: "columns S = map (\<lambda>j. map (\<lambda>row. row ! j) S) [0..<n]"
    by (rule columns_rows[OF assms(1) assms(3)])
  show ?thesis
  proof (rule nth_equalityI)
    show "length (columns S) = length S" by (simp add: c assms(2))
    fix i assume "i < length (columns S)"
    then have i: "i < n" by (simp add: c)
    show "columns S ! i = S ! i"
    proof (rule nth_equalityI)
      show "length (columns S ! i) = length (S ! i)"
        using i assms(2) assms(3) by (simp add: c)
      fix j assume "j < length (columns S ! i)"
      then have j: "j < n" using i assms(2) by (simp add: c)
      show "columns S ! i ! j = S ! i ! j"
        using i j assms(2) assms(4) by (simp add: c)
    qed
  qed
qed

lemma penrose_inv_is_pinv:
  assumes ne: "M \<noteq> []" and rows: "\<forall>row\<in>set M. length row = k" and k0: "0 < k"
      and lP: "length P = k" and rP: "\<forall>p\<in>set P. length p = length M"
      and inv: "penrose_inv (length M) (columns M, P)"
  shows "is_pinv M P"
proof -
  define m where "m = length M"
  define cols where "cols = columns M"
  define e where "e = (\<lambda>t. (replicate m (0::real))[t := 1])"
  have m0: "0 < m" using ne by (simp add: m_def)
  have cols: "cols = map (\<lambda>j. map (\<lambda>row. row ! j) M) [0..<k]"
    unfolding cols_def by (rule columns_rows[OF ne rows])
  have lcols: "length cols = k" by (simp add: cols)
  have lc: "\<And>c. c \<in> set cols \<Longrightarrow> length c = m" by (auto simp: cols m_def)
  have lp: "\<And>p. p \<in> set P \<Longrightarrow> length p = m" using rP by (simp add: m_def)
  have Pne: "P \<noteq> []" using lP k0 by auto
  have colsP: "columns P = map (\<lambda>t. map (\<lambda>p. p ! t) P) [0..<m]"
    by (rule columns_rows[OF Pne]) (use lp in simp)
  have le: "\<And>t. length (e t) = m" by (simp add: e_def)
  have J1: "\<And>c y. c \<in> set cols \<Longrightarrow> length y = m \<Longrightarrow> dot (apply_m P c) (apply_m cols y) = dot c y"
    using inv by (simp add: penrose_inv_def cols_def m_def)
  have J2: "\<And>p y. p \<in> set P \<Longrightarrow> length y = m \<Longrightarrow> dot (apply_m cols p) (apply_m P y) = dot p y"
    using inv by (simp add: penrose_inv_def cols_def m_def)
  have J3: "\<And>i j. i < k \<Longrightarrow> j < k \<Longrightarrow> dot (P ! i) (cols ! j) = dot (P ! j) (cols ! i)"
    using inv by (simp add: penrose_inv_def cols_def m_def lP)
  have J4: "\<And>x y. length x = m \<Longrightarrow> length y = m \<Longrightarrow>
      dot (apply_m P x) (apply_m cols y) = dot (apply_m P y) (apply_m cols x)"
    using inv by (simp add: penrose_inv_def cols_def m_def)
  have de: "\<And>v t. length v = m \<Longrightarrow> t < m \<Longrightarrow> dot v (e t) = v ! t"
    unfolding e_def using dot_unit by blast
  have ap_e: "\<And>t. t < m \<Longrightarrow> apply_m P (e t) = map (\<lambda>p. p ! t) P"
    unfolding apply_m_def by (rule map_cong) (simp_all add: de lp)
  have ac_e: "\<And>s. s < m \<Longrightarrow> apply_m cols (e s) = M ! s"
  proof -
    fix s assume s: "s < m"
    have "apply_m cols (e s) = map (\<lambda>c. c ! s) cols"
      unfolding apply_m_def by (rule map_cong) (simp_all add: de lc s)
    also have "\<dots> = map (\<lambda>j. M ! s ! j) [0..<k]" using s by (simp add: cols o_def m_def)
    also have "\<dots> = M ! s"
      using rows s by (intro nth_equalityI) (simp_all add: m_def)
    finally show "apply_m cols (e s) = M ! s" .
  qed
  have lrow: "\<And>s. s < m \<Longrightarrow> length (M ! s) = k" using rows by (simp add: m_def)
  have colj: "\<And>j. j < k \<Longrightarrow> cols ! j \<in> set cols" by (simp add: lcols)
  have Pi: "\<And>i. i < k \<Longrightarrow> P ! i \<in> set P" by (simp add: lP)
  \<comment> \<open>the two products\<close>
  define MP where "MP = matmul M P"
  define PM where "PM = matmul P M"
  have MPs: "\<And>s. s < m \<Longrightarrow> MP ! s = map (\<lambda>t. dot (M ! s) (map (\<lambda>p. p ! t) P)) [0..<m]"
    by (simp add: MP_def matmul_def colsP m_def o_def)
  have lMP: "length MP = m" by (simp add: MP_def matmul_def m_def)
  have MPst: "\<And>s t. s < m \<Longrightarrow> t < m \<Longrightarrow> MP ! s ! t = dot (apply_m P (e t)) (apply_m cols (e s))"
    by (simp add: MPs ap_e ac_e dot_commute[of "M ! _"])
  have PMi: "\<And>i. i < k \<Longrightarrow> PM ! i = apply_m cols (P ! i)"
    by (simp add: PM_def matmul_def lP apply_m_def dot_commute[of "P ! _"] flip: cols_def)
  have lPM: "length PM = k" by (simp add: PM_def matmul_def lP)
  \<comment> \<open>symmetry\<close>
  have c3: "columns MP = MP"
  proof (rule columns_symmetric[OF _ lMP])
    show "MP \<noteq> []" using lMP m0 by auto
    show "\<forall>row\<in>set MP. length row = m"
      by (auto simp: MP_def matmul_def colsP)
    show "\<forall>i<m. \<forall>j<m. MP ! i ! j = MP ! j ! i"
      using J4[OF le le] by (simp add: MPst)
  qed
  have c4: "columns PM = PM"
  proof (rule columns_symmetric[OF _ lPM])
    show "PM \<noteq> []" using lPM k0 by auto
    show "\<forall>row\<in>set PM. length row = k"
      by (auto simp: PM_def matmul_def lcols simp flip: cols_def)
    show "\<forall>i<k. \<forall>j<k. PM ! i ! j = PM ! j ! i"
      using J3 by (simp add: PMi apply_m_def lcols dot_commute[of "cols ! _"])
  qed
  \<comment> \<open>the products of three\<close>
  have c1: "matmul MP M = M"
  proof (rule nth_equalityI)
    show "length (matmul MP M) = length M" by (simp add: matmul_def lMP m_def)
    fix s assume "s < length (matmul MP M)"
    then have s: "s < m" by (simp add: matmul_def lMP)
    have row: "MP ! s = lincomb m (M ! s) P"
    proof (rule nth_equalityI)
      show "length (MP ! s) = length (lincomb m (M ! s) P)"
        using s length_lincomb[of P m "M ! s"] lp by (simp add: MPs)
      fix t assume "t < length (MP ! s)"
      then have t: "t < m" using s by (simp add: MPs)
      show "MP ! s ! t = lincomb m (M ! s) P ! t"
        using s t nth_lincomb[of P m t "M ! s"] lp by (simp add: MPs)
    qed
    have "matmul MP M ! s = map (\<lambda>col. dot (MP ! s) col) cols"
      using s by (simp add: matmul_def lMP flip: cols_def)
    also have "\<dots> = M ! s"
    proof (rule nth_equalityI)
      show "length (map (\<lambda>col. dot (MP ! s) col) cols) = length (M ! s)"
        by (simp add: lcols lrow[OF s])
      fix j assume "j < length (map (\<lambda>col. dot (MP ! s) col) cols)"
      then have j: "j < k" by (simp add: lcols)
      have "dot (MP ! s) (cols ! j) = dot (M ! s) (apply_m P (cols ! j))"
        unfolding row by (rule dot_lincomb) (use lp in simp)
      also have "\<dots> = dot (apply_m P (cols ! j)) (apply_m cols (e s))"
        by (simp add: ac_e[OF s] dot_commute[of "M ! s"])
      also have "\<dots> = dot (cols ! j) (e s)" by (rule J1[OF colj[OF j] le])
      also have "\<dots> = cols ! j ! s" by (rule de[OF lc[OF colj[OF j]] s])
      also have "\<dots> = M ! s ! j" using j s by (simp add: cols m_def)
      finally show "map (\<lambda>col. dot (MP ! s) col) cols ! j = M ! s ! j"
        using j by (simp add: lcols)
    qed
    finally show "matmul MP M ! s = M ! s" .
  qed
  have c2: "matmul PM P = P"
  proof (rule nth_equalityI)
    show "length (matmul PM P) = length P" by (simp add: matmul_def lPM lP)
    fix i assume "i < length (matmul PM P)"
    then have i: "i < k" by (simp add: matmul_def lPM)
    have "matmul PM P ! i = map (\<lambda>t. dot (PM ! i) (map (\<lambda>p. p ! t) P)) [0..<m]"
      using i by (simp add: matmul_def lPM colsP o_def)
    also have "\<dots> = P ! i"
    proof (rule nth_equalityI)
      show "length (map (\<lambda>t. dot (PM ! i) (map (\<lambda>p. p ! t) P)) [0..<m]) = length (P ! i)"
        using lp[OF Pi[OF i]] by simp
      fix t assume "t < length (map (\<lambda>t. dot (PM ! i) (map (\<lambda>p. p ! t) P)) [0..<m])"
      then have t: "t < m" by simp
      have "dot (PM ! i) (map (\<lambda>p. p ! t) P) = dot (apply_m cols (P ! i)) (apply_m P (e t))"
        by (simp add: PMi[OF i] ap_e[OF t])
      also have "\<dots> = dot (P ! i) (e t)" by (rule J2[OF Pi[OF i] le])
      also have "\<dots> = P ! i ! t" by (rule de[OF lp[OF Pi[OF i]] t])
      finally show "map (\<lambda>t. dot (PM ! i) (map (\<lambda>p. p ! t) P)) [0..<m] ! t = P ! i ! t"
        using t by simp
    qed
    finally show "matmul PM P ! i = P ! i" .
  qed
  show ?thesis
    using c1 c2 c3 c4 by (simp add: is_pinv_def MP_def PM_def)
qed

lemma pseudo_inverse_penrose:
  assumes "M \<noteq> []" and "\<forall>row\<in>set M. length row = k" and "0 < k"
  shows "is_pinv M (pseudo_inverse M)"
  using penrose_inv_is_pinv[OF assms pseudo_inverse_penrose_inv(2)[OF assms(1,2)]
          pseudo_inverse_penrose_inv(3)[OF assms(1,2)] pseudo_inverse_penrose_inv(1)[OF assms(1,2)]]
  by simp

lemma pseudo_inverse_ik_penrose:
  assumes "ws \<noteq> []"
  shows "is_pinv (ik_matrix ws cor) (pseudo_inverse (ik_matrix ws cor))"
proof (rule pseudo_inverse_penrose[where k = 3])
  show "ik_matrix ws cor \<noteq> []" using assms length_ik[of ws cor] by auto
  show "\<forall>row\<in>set (ik_matrix ws cor). length row = 3" by (rule rows_ik)
  show "0 < (3::nat)" by simp
qed

section \<open>The singular values of an inverse-kinematics matrix\<close>

text \<open>
  The model of \<open>pinv\<close> is justified in three steps, for every inverse-kinematics matrix
  \<open>M\<close>. What \<open>singular\<close> lists are the eigenvalues of \<open>M\<^sup>T M\<close> with eigenvectors that are
  not zero and orthogonal to each other: the squares of the singular values of \<open>M\<close>, each
  with a right singular vector (\<open>singular_ik_eigen\<close>, \<open>singular_ik_orthogonal\<close>).
  \<open>zero_small M\<close> sends the right singular vectors of the small singular values to zero
  and agrees with \<open>M\<close> on the others (\<open>zero_small_singular\<close>). And \<open>pinv M\<close> is the
  Moore-Penrose pseudoinverse of \<open>zero_small M\<close> (\<open>pinv_ik_truncated\<close>).
\<close>

subsection \<open>The two roots\<close>

lemma eigen_roots:
  fixes n q r2 :: real
  assumes "0 \<le> r2"
  defines "D \<equiv> sqrt ((q - n) ^ 2 + 4 * r2)"
  shows "((q - n) + D) / 2 * (((q - n) + D) / 2) = (q - n) * (((q - n) + D) / 2) + r2"
    and "((q - n) - D) / 2 * (((q - n) - D) / 2) = (q - n) * (((q - n) - D) / 2) + r2"
    and "((q - n) + D) / 2 * (((q - n) - D) / 2) = - r2"
    and "\<bar>q - n\<bar> \<le> D"
proof -
  have nn: "0 \<le> (q - n) ^ 2 + 4 * r2" using assms(1) by simp
  have dd: "D * D = (q - n) * (q - n) + 4 * r2"
    unfolding D_def using nn by (simp add: power2_eq_square)
  show "((q - n) + D) / 2 * (((q - n) + D) / 2) = (q - n) * (((q - n) + D) / 2) + r2"
    using dd by (simp add: field_simps)
  show "((q - n) - D) / 2 * (((q - n) - D) / 2) = (q - n) * (((q - n) - D) / 2) + r2"
    using dd by (simp add: field_simps)
  show "((q - n) + D) / 2 * (((q - n) - D) / 2) = - r2"
    using dd by (simp add: field_simps)
  have "sqrt ((q - n) ^ 2) \<le> D"
    unfolding D_def using assms(1) by (intro real_sqrt_le_mono) simp
  then show "\<bar>q - n\<bar> \<le> D" by simp
qed

subsection \<open>The matrix \<open>M\<^sup>T M\<close>\<close>

lemma apply_ik:
  "apply_m (ik_matrix ws cor) [x, y, z] =
     concat (map (\<lambda>w. [x + (- y_t w + y_t cor) * z, y + (x_t w - x_t cor) * z]) ws)"
  by (induction ws) (simp_all add: apply_m_def ik_matrix_def dot_def)

lemma gram_apply_ik:
  fixes ws :: "Translation2d list" and cor :: Translation2d
  defines "n \<equiv> real (length ws)"
  defines "c1 \<equiv> concat (map (\<lambda>w. [1, 0::real]) ws)"
  defines "c2 \<equiv> concat (map (\<lambda>w. [0, 1::real]) ws)"
  defines "c3 \<equiv> concat (map (\<lambda>w. [- y_t w + y_t cor, x_t w - x_t cor]) ws)"
  assumes ne: "ws \<noteq> []"
  shows "gram_apply (ik_matrix ws cor) [x, y, z] =
           [n * x + dot c1 c3 * z, n * y + dot c2 c3 * z,
            dot c1 c3 * x + dot c2 c3 * y + dot c3 c3 * z]"
    and "dot (apply_m (ik_matrix ws cor) [x, y, z]) (apply_m (ik_matrix ws cor) [x, y, z]) =
           x * (n * x + dot c1 c3 * z) + y * (n * y + dot c2 c3 * z) +
           z * (dot c1 c3 * x + dot c2 c3 * y + dot c3 c3 * z)"
proof -
  define m where "m = 2 * length ws"
  have l: "length c1 = m" "length c2 = m" "length c3 = m"
    by (simp_all add: c1_def c2_def c3_def m_def length_concat2)
  have g: "dot c1 c1 = n" "dot c2 c2 = n" "dot c1 c2 = 0" "dot c2 c1 = 0"
    by (simp_all add: c1_def c2_def n_def gram_11 gram_22 gram_12 gram_21)
  have s: "dot c3 c1 = dot c1 c3" "dot c3 c2 = dot c2 c3"
    by (simp_all add: dot_commute[of c3])
  have mv: "apply_m (ik_matrix ws cor) [x, y, z] = vadd (vscale x c1) (vadd (vscale y c2) (vscale z c3))"
    unfolding apply_ik c1_def c2_def c3_def by (rule module_vector_decompose)
  have cols: "columns (ik_matrix ws cor) = [c1, c2, c3]"
    by (simp add: columns_ik[OF ne] c1_def c2_def c3_def)
  show "gram_apply (ik_matrix ws cor) [x, y, z] =
           [n * x + dot c1 c3 * z, n * y + dot c2 c3 * z,
            dot c1 c3 * x + dot c2 c3 * y + dot c3 c3 * z]"
    unfolding gram_apply_def mv cols by (simp add: dot_bilinear l g s algebra_simps)
  show "dot (apply_m (ik_matrix ws cor) [x, y, z]) (apply_m (ik_matrix ws cor) [x, y, z]) =
           x * (n * x + dot c1 c3 * z) + y * (n * y + dot c2 c3 * z) +
           z * (dot c1 c3 * x + dot c2 c3 * y + dot c3 c3 * z)"
    unfolding mv by (simp add: dot_bilinear l g s algebra_simps)
qed

lemma singular_ik:
  fixes ws :: "Translation2d list" and cor :: Translation2d
  defines "n \<equiv> real (length ws)"
  defines "a \<equiv> dot (concat (map (\<lambda>w. [1, 0::real]) ws))
                    (concat (map (\<lambda>w. [- y_t w + y_t cor, x_t w - x_t cor]) ws))"
  defines "b \<equiv> dot (concat (map (\<lambda>w. [0, 1::real]) ws))
                    (concat (map (\<lambda>w. [- y_t w + y_t cor, x_t w - x_t cor]) ws))"
  defines "q \<equiv> dot (concat (map (\<lambda>w. [- y_t w + y_t cor, x_t w - x_t cor]) ws))
                    (concat (map (\<lambda>w. [- y_t w + y_t cor, x_t w - x_t cor]) ws))"
  defines "D \<equiv> sqrt ((q - n) ^ 2 + 4 * (a ^ 2 + b ^ 2))"
  assumes ne: "ws \<noteq> []"
  shows "singular (ik_matrix ws cor) =
     (if a = 0 \<and> b = 0 then [(n, [1, 0, 0]), (n, [0, 1, 0]), (q, [0, 0, 1])]
      else [(n + ((q - n) + D) / 2, [a, b, ((q - n) + D) / 2]), (n, [b, - a, 0]),
            (n + ((q - n) - D) / 2, [a, b, ((q - n) - D) / 2])])"
  by (simp add: singular_def columns_ik[OF ne] gram_11 Let_def n_def a_def b_def q_def D_def)

subsection \<open>Eigenvalues and eigenvectors\<close>

lemma singular_ik_eigen:
  assumes ne: "ws \<noteq> []" and mem: "(lam, w) \<in> set (singular (ik_matrix ws cor))"
  shows "gram_apply (ik_matrix ws cor) w = vscale lam w" and "0 < dot w w" and "0 \<le> lam"
proof -
  define n where "n = real (length ws)"
  define a where "a = dot (concat (map (\<lambda>w. [1, 0::real]) ws))
                    (concat (map (\<lambda>w. [- y_t w + y_t cor, x_t w - x_t cor]) ws))"
  define b where "b = dot (concat (map (\<lambda>w. [0, 1::real]) ws))
                    (concat (map (\<lambda>w. [- y_t w + y_t cor, x_t w - x_t cor]) ws))"
  define q where "q = dot (concat (map (\<lambda>w. [- y_t w + y_t cor, x_t w - x_t cor]) ws))
                    (concat (map (\<lambda>w. [- y_t w + y_t cor, x_t w - x_t cor]) ws))"
  define D where "D = sqrt ((q - n) ^ 2 + 4 * (a ^ 2 + b ^ 2))"
  define zp where "zp = ((q - n) + D) / 2"
  define zm where "zm = ((q - n) - D) / 2"
  have sing: "singular (ik_matrix ws cor) =
     (if a = 0 \<and> b = 0 then [(n, [1, 0, 0]), (n, [0, 1, 0]), (q, [0, 0, 1])]
      else [(n + zp, [a, b, zp]), (n, [b, - a, 0]), (n + zm, [a, b, zm])])"
    unfolding n_def a_def b_def q_def D_def zp_def zm_def by (rule singular_ik[OF ne])
  have G: "\<And>x y z. gram_apply (ik_matrix ws cor) [x, y, z] =
           [n * x + a * z, n * y + b * z, a * x + b * y + q * z]"
    unfolding n_def a_def b_def q_def by (rule gram_apply_ik(1)[OF ne])
  have Q: "\<And>x y z. dot (apply_m (ik_matrix ws cor) [x, y, z]) (apply_m (ik_matrix ws cor) [x, y, z]) =
           x * (n * x + a * z) + y * (n * y + b * z) + z * (a * x + b * y + q * z)"
    unfolding n_def a_def b_def q_def by (rule gram_apply_ik(2)[OF ne])
  have r0: "0 \<le> a ^ 2 + b ^ 2" by simp
  have rp: "zp * zp = (q - n) * zp + (a ^ 2 + b ^ 2)"
    unfolding zp_def D_def by (rule eigen_roots(1)[OF r0])
  have rm: "zm * zm = (q - n) * zm + (a ^ 2 + b ^ 2)"
    unfolding zm_def D_def by (rule eigen_roots(2)[OF r0])
  have eig: "gram_apply (ik_matrix ws cor) w = vscale lam w \<and> 0 < dot w w"
  proof (cases "a = 0 \<and> b = 0")
    case True
    then have "(lam, w) = (n, [1, 0, 0]) \<or> (lam, w) = (n, [0, 1, 0]) \<or> (lam, w) = (q, [0, 0, 1])"
      using mem by (simp add: sing)
    then show ?thesis using True by (auto simp: G vscale_def dot_def)
  next
    case False
    then have pos: "0 < a * a + b * b"
      by (metis add_pos_nonneg add_nonneg_pos mult_eq_0_iff not_sum_squares_lt_zero
          zero_le_square less_eq_real_def add.commute add_cancel_right_right sum_squares_eq_zero_iff
          not_less)
    have c: "(lam, w) = (n + zp, [a, b, zp]) \<or> (lam, w) = (n, [b, - a, 0]) \<or> (lam, w) = (n + zm, [a, b, zm])"
      using mem False by (simp add: sing)
    have e3p: "a * a + b * b + q * zp = (n + zp) * zp"
      using rp by (simp add: algebra_simps power2_eq_square)
    have e3m: "a * a + b * b + q * zm = (n + zm) * zm"
      using rm by (simp add: algebra_simps power2_eq_square)
    have pz: "\<And>z::real. 0 < a * a + (b * b + z * z)"
    proof -
      fix z :: real
      have "0 \<le> z * z" by simp
      then show "0 < a * a + (b * b + z * z)" using pos by linarith
    qed
    have d: "0 < dot [a, b, zp] [a, b, zp]" "0 < dot [a, b, zm] [a, b, zm]" "0 < dot [b, - a, 0] [b, - a, 0]"
      using pz[of zp] pz[of zm] pos by (simp_all add: dot_def)
    have g: "gram_apply (ik_matrix ws cor) [a, b, zp] = vscale (n + zp) [a, b, zp]"
        "gram_apply (ik_matrix ws cor) [a, b, zm] = vscale (n + zm) [a, b, zm]"
        "gram_apply (ik_matrix ws cor) [b, - a, 0] = vscale n [b, - a, 0]"
      using e3p e3m by (simp_all add: G vscale_def algebra_simps)
    show ?thesis
      using c d g by auto
  qed
  then show "gram_apply (ik_matrix ws cor) w = vscale lam w" and p: "0 < dot w w" by simp_all
  have "length w = 3" using mem by (rule singular_lengths)
  then obtain x y z where w: "w = [x, y, z]"
    by (metis (no_types, opaque_lifting) length_0_conv length_Suc_conv numeral_3_eq_3)
  have e: "n * x + a * z = lam * x" "n * y + b * z = lam * y" "a * x + b * y + q * z = lam * z"
    using eig by (simp_all add: w G vscale_def)
  have "dot (apply_m (ik_matrix ws cor) w) (apply_m (ik_matrix ws cor) w) =
      x * (lam * x) + y * (lam * y) + z * (lam * z)"
    unfolding w Q e by (rule refl)
  also have "\<dots> = lam * dot w w" by (simp add: w dot_def algebra_simps)
  finally have "dot (apply_m (ik_matrix ws cor) w) (apply_m (ik_matrix ws cor) w) = lam * dot w w" .
  then have "0 \<le> lam * dot w w" using dot_self_nonneg[of "apply_m (ik_matrix ws cor) w"] by simp
  then show "0 \<le> lam" using p by (simp add: zero_le_mult_iff)
qed

lemma singular_ik_orthogonal:
  assumes ne: "ws \<noteq> []"
  shows "\<exists>l1 w1 l2 w2 l3 w3. singular (ik_matrix ws cor) = [(l1, w1), (l2, w2), (l3, w3)] \<and>
           dot w1 w2 = 0 \<and> dot w1 w3 = 0 \<and> dot w2 w3 = 0"
proof -
  define n where "n = real (length ws)"
  define a where "a = dot (concat (map (\<lambda>w. [1, 0::real]) ws))
                    (concat (map (\<lambda>w. [- y_t w + y_t cor, x_t w - x_t cor]) ws))"
  define b where "b = dot (concat (map (\<lambda>w. [0, 1::real]) ws))
                    (concat (map (\<lambda>w. [- y_t w + y_t cor, x_t w - x_t cor]) ws))"
  define q where "q = dot (concat (map (\<lambda>w. [- y_t w + y_t cor, x_t w - x_t cor]) ws))
                    (concat (map (\<lambda>w. [- y_t w + y_t cor, x_t w - x_t cor]) ws))"
  define D where "D = sqrt ((q - n) ^ 2 + 4 * (a ^ 2 + b ^ 2))"
  define zp where "zp = ((q - n) + D) / 2"
  define zm where "zm = ((q - n) - D) / 2"
  have sing: "singular (ik_matrix ws cor) =
     (if a = 0 \<and> b = 0 then [(n, [1, 0, 0]), (n, [0, 1, 0]), (q, [0, 0, 1])]
      else [(n + zp, [a, b, zp]), (n, [b, - a, 0]), (n + zm, [a, b, zm])])"
    unfolding n_def a_def b_def q_def D_def zp_def zm_def by (rule singular_ik[OF ne])
  have r0: "0 \<le> a ^ 2 + b ^ 2" by simp
  have pm: "zp * zm = - (a ^ 2 + b ^ 2)"
    unfolding zp_def zm_def D_def by (rule eigen_roots(3)[OF r0])
  show ?thesis
  proof (cases "a = 0 \<and> b = 0")
    case True
    then show ?thesis by (simp add: sing dot_def)
  next
    case False
    then show ?thesis using pm by (simp add: sing dot_def power2_eq_square)
  qed
qed

subsection \<open>Setting the small singular values to zero\<close>

text \<open>
  \<open>zero_small M\<close> sends a right singular vector whose singular value is positive and at
  most \<open>rcond\<close> times the largest to zero, and agrees with \<open>M\<close> on the others: it is \<open>M\<close>
  with the small singular values set to zero.
\<close>

lemma dot_without:
  "\<forall>p\<in>set sm. length (snd p) = length acc \<Longrightarrow>
   dot (foldl (\<lambda>acc (lam, w). vsub acc (vscale (c w) w)) acc sm) v =
     dot acc v - sum_list (map (\<lambda>(lam, w). c w * dot w v) sm)"
proof (induction sm arbitrary: acc)
  case Nil
  show ?case by simp
next
  case (Cons p sm)
  obtain lam w where p: "p = (lam, w)" by (cases p)
  have lw: "length w = length acc" using Cons.prems by (simp add: p)
  have l: "length (vsub acc (vscale (c w) w)) = length acc"
    by (simp add: length_vsub length_vscale lw)
  have "\<forall>p\<in>set sm. length (snd p) = length (vsub acc (vscale (c w) w))"
    using Cons.prems by (simp add: l)
  then have "dot (foldl (\<lambda>acc (lam, w). vsub acc (vscale (c w) w)) (vsub acc (vscale (c w) w)) sm) v =
     dot (vsub acc (vscale (c w) w)) v - sum_list (map (\<lambda>(lam, w). c w * dot w v) sm)"
    by (rule Cons.IH)
  moreover have "dot (vsub acc (vscale (c w) w)) v = dot acc v - c w * dot w v"
    by (simp add: dot_vsub_left dot_vscale_left length_vscale lw)
  ultimately show ?case by (simp add: p)
qed

lemma zero_small_singular:
  assumes ne: "ws \<noteq> []" and mem: "(lam, w) \<in> set (singular (ik_matrix ws cor))"
  shows "apply_m (zero_small (ik_matrix ws cor)) w =
           (if 0 < lam \<and> lam \<le> rcond ^ 2 * foldl max 0 (map fst (singular (ik_matrix ws cor)))
            then replicate (2 * length ws) 0
            else apply_m (ik_matrix ws cor) w)"
proof -
  define M where "M = ik_matrix ws cor"
  define P where "P = (\<lambda>(lam::real, w::vec). 0 < lam \<and> lam \<le> rcond ^ 2 * foldl max 0 (map fst (singular M)))"
  obtain l1 w1 l2 w2 l3 w3 where
    sing: "singular M = [(l1, w1), (l2, w2), (l3, w3)]" and
    o: "dot w1 w2 = 0" "dot w1 w3 = 0" "dot w2 w3 = 0"
    using singular_ik_orthogonal[OF ne, of cor] unfolding M_def by blast
  have o': "dot w2 w1 = 0" "dot w3 w1 = 0" "dot w3 w2 = 0"
    using o by (simp_all add: dot_commute)
  have pos: "dot w1 w1 \<noteq> 0" "dot w2 w2 \<noteq> 0" "dot w3 w3 \<noteq> 0"
    using singular_ik_eigen(2)[OF ne, of l1 w1 cor] singular_ik_eigen(2)[OF ne, of l2 w2 cor]
          singular_ik_eigen(2)[OF ne, of l3 w3 cor] sing
    by (simp_all add: M_def)
  have len: "length w1 = 3" "length w2 = 3" "length w3 = 3"
    using singular_lengths[of l1 w1 M] singular_lengths[of l2 w2 M] singular_lengths[of l3 w3 M]
    by (simp_all add: sing)
  have "small_singular M = filter P (singular M)"
    by (simp only: small_singular_def Let_def P_def)
  then have small: "small_singular M = filter P [(l1, w1), (l2, w2), (l3, w3)]"
    by (simp only: sing)
  have cut: "\<And>row v. row \<in> set M \<Longrightarrow>
      dot (foldl (\<lambda>acc (lam, w). vsub acc (vscale (dot row w / dot w w) w)) row (small_singular M)) v =
      dot row v - sum_list (map (\<lambda>(lam, w). dot row w / dot w w * dot w v) (filter P [(l1, w1), (l2, w2), (l3, w3)]))"
  proof -
    fix row v assume r: "row \<in> set M"
    then have lr: "length row = 3" using rows_ik[of ws cor] by (simp add: M_def)
    have "\<forall>p\<in>set (small_singular M). length (snd p) = length row"
      using len lr by (auto simp: small)
    then show "dot (foldl (\<lambda>acc (lam, w). vsub acc (vscale (dot row w / dot w w) w)) row (small_singular M)) v =
      dot row v - sum_list (map (\<lambda>(lam, w). dot row w / dot w w * dot w v) (filter P [(l1, w1), (l2, w2), (l3, w3)]))"
      using dot_without[of "small_singular M" row "\<lambda>w. dot row w / dot w w" v] by (simp add: small)
  qed
  have k1: "\<And>row. row \<in> set M \<Longrightarrow>
      dot (foldl (\<lambda>acc (lam, w). vsub acc (vscale (dot row w / dot w w) w)) row (small_singular M)) w1 =
      (if P (l1, w1) then 0 else dot row w1)"
    using pos by (simp add: cut o o')
  have k2: "\<And>row. row \<in> set M \<Longrightarrow>
      dot (foldl (\<lambda>acc (lam, w). vsub acc (vscale (dot row w / dot w w) w)) row (small_singular M)) w2 =
      (if P (l2, w2) then 0 else dot row w2)"
    using pos by (simp add: cut o o')
  have k3: "\<And>row. row \<in> set M \<Longrightarrow>
      dot (foldl (\<lambda>acc (lam, w). vsub acc (vscale (dot row w / dot w w) w)) row (small_singular M)) w3 =
      (if P (l3, w3) then 0 else dot row w3)"
    using pos by (simp add: cut o o')
  have a: "\<And>l v. (\<And>row. row \<in> set M \<Longrightarrow>
      dot (foldl (\<lambda>acc (lam, w). vsub acc (vscale (dot row w / dot w w) w)) row (small_singular M)) v =
      (if P (l, v) then 0 else dot row v)) \<Longrightarrow>
      apply_m (zero_small M) v = (if P (l, v) then replicate (length M) 0 else apply_m M v)"
  proof -
    fix l v
    assume h: "\<And>row. row \<in> set M \<Longrightarrow>
      dot (foldl (\<lambda>acc (lam, w). vsub acc (vscale (dot row w / dot w w) w)) row (small_singular M)) v =
      (if P (l, v) then 0 else dot row v)"
    have "apply_m (zero_small M) v = map (\<lambda>row. if P (l, v) then 0 else dot row v) M"
      unfolding apply_m_def zero_small_def using h by (simp add: o_def cong: map_cong)
    then show "apply_m (zero_small M) v = (if P (l, v) then replicate (length M) 0 else apply_m M v)"
      by (simp add: apply_m_def map_replicate_const)
  qed
  have c: "(lam, w) = (l1, w1) \<or> (lam, w) = (l2, w2) \<or> (lam, w) = (l3, w3)"
    using mem by (simp add: sing flip: M_def)
  have "apply_m (zero_small M) w = (if P (lam, w) then replicate (length M) 0 else apply_m M w)"
    using c a[of w1 l1, OF k1] a[of w2 l2, OF k2] a[of w3 l3, OF k3] by auto
  then show ?thesis unfolding P_def M_def by (simp only: case_prod_conv length_ik)
qed

subsection \<open>When no singular value is small\<close>

text \<open>
  With \<open>n\<close>, \<open>a\<close>, \<open>b\<close>, \<open>q\<close> as in \<open>singular\<close>, the product of the largest and the smallest
  eigenvalue is \<open>n q - (a\<^sup>2 + b\<^sup>2)\<close> and their sum is \<open>n + q\<close>. So no singular value is cut
  off when \<open>n q - (a\<^sup>2 + b\<^sup>2)\<close> is more than \<open>rcond\<^sup>2 (n + q)\<^sup>2\<close>.
\<close>

lemma well_conditioned_sufficient:
  assumes cols: "columns M = [c1, c2, c3]"
      and npos: "0 < dot c1 c1"
      and gap: "rcond ^ 2 * (dot c1 c1 + dot c3 c3) ^ 2
                  < dot c1 c1 * dot c3 c3 - ((dot c1 c3) ^ 2 + (dot c2 c3) ^ 2)"
  shows "well_conditioned M"
proof -
  define n where "n = dot c1 c1"
  define a where "a = dot c1 c3"
  define b where "b = dot c2 c3"
  define q where "q = dot c3 c3"
  define e where "e = rcond ^ 2"
  define r2 where "r2 = a ^ 2 + b ^ 2"
  have e: "0 < e" "e < 1" by (simp_all add: e_def rcond_sq)
  have n0: "0 < n" using npos by (simp add: n_def)
  have r0: "0 \<le> r2" by (simp add: r2_def)
  have gap': "e * ((n + q) * (n + q)) < n * q - r2"
    using gap by (simp add: n_def q_def a_def b_def e_def r2_def power2_eq_square)
  have s0: "0 \<le> e * ((n + q) * (n + q))" using e(1) by simp
  have nq: "0 < n * q" using gap' s0 r0 by linarith
  then have qp: "0 < q" using n0 by (simp add: zero_less_mult_iff)
  have sp: "0 < n + q" using n0 qp by simp
  show ?thesis
  proof (cases "a = 0 \<and> b = 0")
    case True
    have sing: "singular M = [(n, [1, 0, 0]), (n, [0, 1, 0]), (q, [0, 0, 1])]"
      using True by (simp add: singular_def cols Let_def n_def a_def b_def q_def)
    define L where "L = foldl max 0 (map fst (singular M))"
    have L: "L \<le> n + q" "0 \<le> L" using n0 qp by (simp_all add: L_def sing)
    have "e * (n + q) * q \<le> e * (n + q) * (n + q)"
      using e(1) sp n0 by (intro mult_left_mono) simp_all
    then have "e * (n + q) * q < n * q" using gap' r0 by (simp add: mult.assoc)
    then have 1: "e * (n + q) < n" using qp by simp
    have "e * (n + q) * n \<le> e * (n + q) * (n + q)"
      using e(1) sp qp by (intro mult_left_mono) simp_all
    then have "e * (n + q) * n < q * n" using gap' r0 by (simp add: mult.assoc mult.commute[of q n])
    then have 2: "e * (n + q) < q" using n0 by simp
    have "e * L \<le> e * (n + q)" using L(1) e(1) by simp
    then have no: "\<not> n \<le> e * L" "\<not> q \<le> e * L" using 1 2 by linarith+
    have "small_singular M = filter (\<lambda>(lam, w). 0 < lam \<and> lam \<le> e * L) (singular M)"
      by (simp only: small_singular_def Let_def L_def e_def)
    then have "small_singular M = []"
      unfolding sing using no by simp
    then show ?thesis by (simp add: well_conditioned_def)
  next
    case False
    define D where "D = sqrt ((q - n) ^ 2 + 4 * r2)"
    define zp where "zp = ((q - n) + D) / 2"
    define zm where "zm = ((q - n) - D) / 2"
    have sing: "singular M = [(n + zp, [a, b, zp]), (n, [b, - a, 0]), (n + zm, [a, b, zm])]"
      using False by (simp add: singular_def cols Let_def n_def a_def b_def q_def D_def zp_def zm_def r2_def)
    have pm: "zp * zm = - r2" unfolding zp_def zm_def D_def by (rule eigen_roots(3)[OF r0])
    have ab: "\<bar>q - n\<bar> \<le> D" unfolding D_def by (rule eigen_roots(4)[OF r0])
    have sum: "zp + zm = q - n" by (simp add: zp_def zm_def field_simps)
    have zp0: "0 \<le> zp" "zm \<le> 0" using ab by (simp_all add: zp_def zm_def)
    define lp where "lp = n + zp"
    define lm where "lm = n + zm"
    have lpn: "n \<le> lp" "lm \<le> n" "0 < lp" using zp0 n0 by (simp_all add: lp_def lm_def)
    have tr: "lp + lm = n + q" using sum by (simp add: lp_def lm_def)
    have "lp * lm = n * n + n * (zp + zm) + zp * zm" by (simp add: lp_def lm_def algebra_simps)
    also have "\<dots> = n * n + n * (q - n) + - r2" unfolding sum pm by (rule refl)
    also have "\<dots> = n * q - r2" by (simp add: algebra_simps)
    finally have det: "lp * lm = n * q - r2" .
    have "0 < lp * lm" using det gap' s0 by linarith
    then have lm0: "0 < lm" using lpn(3) by (simp add: zero_less_mult_iff)
    have lple: "lp \<le> n + q" using tr lm0 by linarith
    define L0 where "L0 = foldl max 0 (map fst (singular M))"
    have L: "L0 = lp" using lpn lm0 by (simp add: L0_def sing flip: lp_def lm_def)
    have "e * (lp * lp) \<le> e * ((n + q) * (n + q))"
      using e(1) lple lpn(3) by (intro mult_left_mono mult_mono) simp_all
    then have "e * lp * lp < lm * lp" using gap' det by (simp add: mult.assoc mult.commute[of lm lp])
    then have 1: "e * lp < lm" using lpn(3) by simp
    have 2: "e * lp < lp" using e(2) lpn(3) by simp
    have no: "\<not> lp \<le> e * L0" "\<not> n \<le> e * L0" "\<not> lm \<le> e * L0"
      using 1 2 lpn by (simp_all add: L)
    have "small_singular M = filter (\<lambda>(lam, w). 0 < lam \<and> lam \<le> e * L0) (singular M)"
      by (simp only: small_singular_def Let_def L0_def e_def)
    then have "small_singular M = []"
      unfolding sing using no by (simp flip: lp_def lm_def)
    then show ?thesis by (simp add: well_conditioned_def)
  qed
qed


lemma well_conditioned_ik:
  fixes ws :: "Translation2d list" and cor :: Translation2d
  defines "n \<equiv> real (length ws)"
  defines "a \<equiv> dot (concat (map (\<lambda>w. [1, 0::real]) ws))
                    (concat (map (\<lambda>w. [- y_t w + y_t cor, x_t w - x_t cor]) ws))"
  defines "b \<equiv> dot (concat (map (\<lambda>w. [0, 1::real]) ws))
                    (concat (map (\<lambda>w. [- y_t w + y_t cor, x_t w - x_t cor]) ws))"
  defines "q \<equiv> dot (concat (map (\<lambda>w. [- y_t w + y_t cor, x_t w - x_t cor]) ws))
                    (concat (map (\<lambda>w. [- y_t w + y_t cor, x_t w - x_t cor]) ws))"
  assumes ne: "ws \<noteq> []" and gap: "rcond ^ 2 * (n + q) ^ 2 < n * q - (a ^ 2 + b ^ 2)"
  shows "well_conditioned (ik_matrix ws cor)"
proof (rule well_conditioned_sufficient[OF columns_ik[OF ne]])
  show "0 < dot (concat (map (\<lambda>w. [1, 0::real]) ws)) (concat (map (\<lambda>w. [1, 0]) ws))"
    using ne by (simp add: gram_11)
  show "rcond ^ 2 * (dot (concat (map (\<lambda>w. [1, 0::real]) ws)) (concat (map (\<lambda>w. [1, 0]) ws)) +
          dot (concat (map (\<lambda>w. [- y_t w + y_t cor, x_t w - x_t cor]) ws))
              (concat (map (\<lambda>w. [- y_t w + y_t cor, x_t w - x_t cor]) ws))) ^ 2
        < dot (concat (map (\<lambda>w. [1, 0::real]) ws)) (concat (map (\<lambda>w. [1, 0]) ws)) *
          dot (concat (map (\<lambda>w. [- y_t w + y_t cor, x_t w - x_t cor]) ws))
              (concat (map (\<lambda>w. [- y_t w + y_t cor, x_t w - x_t cor]) ws)) -
          ((dot (concat (map (\<lambda>w. [1, 0::real]) ws))
                (concat (map (\<lambda>w. [- y_t w + y_t cor, x_t w - x_t cor]) ws))) ^ 2 +
           (dot (concat (map (\<lambda>w. [0, 1::real]) ws))
                (concat (map (\<lambda>w. [- y_t w + y_t cor, x_t w - x_t cor]) ws))) ^ 2)"
    using gap unfolding n_def a_def b_def q_def by (simp only: gram_11)
qed

subsection \<open>The forward matrix when no singular value is small\<close>

lemma pinv_ik_left_inverse:
  fixes ws :: "Translation2d list" and cor :: Translation2d
  assumes "\<exists>a\<in>set ws. \<exists>b\<in>set ws. a \<noteq> b"
      and "well_conditioned (ik_matrix ws cor)"
  shows "map (\<lambda>row. dot row (concat (map (\<lambda>w. [a + (- y_t w + y_t cor) * c0, b + (x_t w - x_t cor) * c0]) ws)))
           (pinv (ik_matrix ws cor)) = [a, b, c0]"
  unfolding pinv_well_conditioned[OF assms(2)] by (rule pseudo_inverse_ik_left_inverse[OF assms(1)])

lemma pinv_ik_penrose:
  assumes "ws \<noteq> []" and "well_conditioned (ik_matrix ws cor)"
  shows "is_pinv (ik_matrix ws cor) (pinv (ik_matrix ws cor))"
  unfolding pinv_well_conditioned[OF assms(2)] by (rule pseudo_inverse_ik_penrose[OF assms(1)])

text \<open>
  In every case the forward matrix is the Moore-Penrose pseudoinverse of the matrix with
  its small singular values set to zero.
\<close>

lemma zero_small_well_conditioned: "well_conditioned M \<Longrightarrow> zero_small M = M"
  by (simp add: zero_small_def well_conditioned_def)

lemma pinv_ik_truncated:
  assumes "ws \<noteq> []"
  shows "is_pinv (zero_small (ik_matrix ws cor)) (pinv (ik_matrix ws cor))"
  unfolding pinv_def
proof (rule pseudo_inverse_penrose[where k = 3])
  have z: "length (zero_small (ik_matrix ws cor)) = 2 * length ws"
      "\<forall>row\<in>set (zero_small (ik_matrix ws cor)). length row = 3"
    using zero_small_shape[OF rows_ik, of ws cor] by (simp_all add: length_ik)
  show "zero_small (ik_matrix ws cor) \<noteq> []" using z(1) assms by auto
  show "\<forall>row\<in>set (zero_small (ik_matrix ws cor)). length row = 3" by (rule z(2))
  show "0 < (3::nat)" by simp
qed

subsection \<open>Two wheels too close to the centre\<close>

text \<open>
  With the wheels \<open>(0, tiny)\<close> and \<open>(0, -tiny)\<close>, where \<open>tiny\<close> is \<open>2^-60\<close>, the singular values of the
  inverse-kinematics matrix are \<open>sqrt 2\<close>, \<open>sqrt 2\<close> and \<open>2^-59.5\<close>. The last one is below
  \<open>1e-15 * sqrt 2\<close> and is set to zero, so the forward matrix has a zero row for the
  angular rate: the chassis speeds \<open>(2, 0, 2^60)\<close> give both wheels a velocity along x, of
  magnitude 1 and 3, and come back as \<open>(2, 0, 0)\<close>.
\<close>

lemma cols_close:
  "columns [[1, 0, - h], [0, 1, 0], [1, 0, h], [0, 1, 0::real]] =
     [[1, 0, 1, 0], [0, 1, 0, 1], [- h, 0, h, 0]]"
  by (simp add: columns_def upt_rec)

lemma singular_close:
  "singular [[1, 0, - h], [0, 1, 0], [1, 0, h], [0, 1, 0]] =
     [(2, [1, 0, 0]), (2, [0, 1, 0]), (h * h + h * h, [0, 0, 1])]"
  by (simp add: singular_def cols_close dot_def Let_def)

lemma small_close:
  "small_singular [[1, 0, - tiny], [0, 1, 0], [1, 0, tiny], [0, 1, 0]] =
     [(tiny * tiny + tiny * tiny, [0, 0, 1])]"
proof -
  have t: "tiny * tiny + tiny * tiny = 1 / 2 ^ 119" by (simp add: tiny_def)
  show ?thesis
    unfolding small_singular_def singular_close Let_def t by (simp add: rcond_sq)
qed

lemma zero_small_close:
  "zero_small [[1, 0, - tiny], [0, 1, 0], [1, 0, tiny], [0, 1, 0]] =
     [[1, 0, 0], [0, 1, 0], [1, 0, 0], [0, 1, 0]]"
  by (simp add: zero_small_def small_close dot_def vsub_def vscale_def)

lemma cols_cut:
  "columns [[1, 0, 0], [0, 1, 0], [1, 0, 0], [0, 1, 0::real]] = [[1, 0, 1, 0], [0, 1, 0, 1], [0, 0, 0, 0]]"
  by (simp add: columns_def upt_rec)

lemma pinv_close:
  "pinv [[1, 0, - tiny], [0, 1, 0], [1, 0, tiny], [0, 1, 0]] =
     [[1 / 2, 0, 1 / 2, 0], [0, 1 / 2, 0, 1 / 2], [0, 0, 0, 0]]"
  unfolding pinv_def zero_small_close
  by (simp add: pseudo_inverse_def cols_cut greville_step_def Let_def
        dot_def vsub_def vadd_def vscale_def)

lemma pinv_close_penrose:
  "is_pinv (zero_small [[1, 0, - tiny], [0, 1, 0], [1, 0, tiny], [0, 1, 0]])
           (pinv [[1, 0, - tiny], [0, 1, 0], [1, 0, tiny], [0, 1, 0]]) \<and>
   \<not> is_pinv [[1, 0, - tiny], [0, 1, 0], [1, 0, tiny], [0, 1, 0]]
           (pinv [[1, 0, - tiny], [0, 1, 0], [1, 0, tiny], [0, 1, 0]])"
proof -
  have c: "columns [[1 / 2, 0, 1 / 2, 0], [0, 1 / 2, 0, 1 / 2], [0, 0, 0, 0::real]] =
      [[1 / 2, 0, 0], [0, 1 / 2, 0], [1 / 2, 0, 0], [0, 1 / 2, 0]]"
    by (simp add: columns_def upt_rec)
  have t0: "tiny \<noteq> 0" by (simp add: tiny_def)
  have 1: "is_pinv [[1, 0, 0], [0, 1, 0], [1, 0, 0], [0, 1, 0]]
             [[1 / 2, 0, 1 / 2, 0], [0, 1 / 2, 0, 1 / 2], [0, 0, 0, 0]]"
    by (simp add: is_pinv_def matmul_def c cols_cut dot_def columns_def upt_rec)
  have "matmul (matmul [[1, 0, - tiny], [0, 1, 0], [1, 0, tiny], [0, 1, 0]]
                  [[1 / 2, 0, 1 / 2, 0], [0, 1 / 2, 0, 1 / 2], [0, 0, 0, 0]])
               [[1, 0, - tiny], [0, 1, 0], [1, 0, tiny], [0, 1, 0]] =
        [[1, 0, 0], [0, 1, 0], [1, 0, 0], [0, 1, 0]]"
    by (simp add: matmul_def c cols_close dot_def)
  then have 2: "\<not> is_pinv [[1, 0, - tiny], [0, 1, 0], [1, 0, tiny], [0, 1, 0]]
             [[1 / 2, 0, 1 / 2, 0], [0, 1 / 2, 0, 1 / 2], [0, 0, 0, 0]]"
    using t0 by (simp add: is_pinv_def)
  show ?thesis using 1 2 by (simp add: pinv_close zero_small_close)
qed

lemma init_wheels_close: "SwerveDriveKinematics_init wheels_close = Inr kin_close"
  by (simp add: init_result wheels_close_def kin_close_def ik_matrix_def identity_translation_def
        Translation2d_init_def pinv_close)

lemma cutoff_loses_rotation:
  "kinematics_object kin_close \<and>
   modules kin_close = [Translation2d_init 0 tiny, Translation2d_init 0 (- tiny)] \<and>
   \<not> well_conditioned (ik_matrix (modules kin_close) identity_translation) \<and>
   toSwerveModuleStates kin_close spin identity_translation = Inr (spin_states, kin_close) \<and>
   toChassisSpeeds kin_close spin_states = Inr \<lparr>vx = 2, vy = 0, omega = 0\<rparr> \<and>
   \<lparr>vx = 2, vy = 0, omega = 0\<rparr> \<noteq> spin"
proof -
  have ob: "kinematics_object kin_close"
    by (rule kinematics_object.made) (rule init_wheels_close)
  have inv: "kin_inv kin_close" by (rule kinematics_object_inv[OF ob])
  have m: "ik_matrix (modules kin_close) identity_translation =
      [[1, 0, - tiny], [0, 1, 0], [1, 0, tiny], [0, 1, 0]]"
    by (simp add: ik_matrix_def kin_close_def wheels_close_def identity_translation_def Translation2d_init_def)
  have w: "\<not> well_conditioned (ik_matrix (modules kin_close) identity_translation)"
    by (simp add: m well_conditioned_def small_close)
  have t: "tr_eq (prev_cor kin_close) identity_translation"
    by (simp add: tr_eq_identity kin_close_def)
  have r: "Rotation2d_xy 1 0 = Rotation2d_zero" "Rotation2d_xy 3 0 = Rotation2d_zero"
    by (simp_all add: Rotation2d_xy_def Let_def hypot_x0 Rotation2d_zero_def atan2_def)
  have t0: "tiny \<noteq> 0" by (simp add: tiny_def)
  have 1: "toSwerveModuleStates kin_close spin identity_translation = Inr (spin_states, kin_close)"
    using t t0
    by (simp add: toSwerveModuleStates_result[OF inv] Let_def)
       (simp add: kin_close_def wheels_close_def module_velocity_def spin_def spin_states_def hypot_x0
          r identity_translation_def Translation2d_init_def)
  have 2: "toChassisSpeeds kin_close spin_states = Inr \<lparr>vx = 2, vy = 0, omega = 0\<rparr>"
    by (simp add: toChassisSpeeds_result[OF inv])
       (simp add: kin_close_def spin_states_def module_vector_def dot_def Rotation2d_zero_def)
  have 3: "modules kin_close = [Translation2d_init 0 tiny, Translation2d_init 0 (- tiny)]"
    by (simp add: kin_close_def wheels_close_def)
  have 4: "\<lparr>vx = 2, vy = 0, omega = 0\<rparr> \<noteq> spin" using t0 by (simp add: spin_def)
  show ?thesis
    using ob 3 w 1 2 4 by blast
qed

section \<open>The round trip through the wheels\<close>

text \<open>
  Claim C6, as the code has it. For a kinematics object whose wheels are not all at one
  point, inverse kinematics about the robot centre followed by forward kinematics gives
  back the chassis speeds, under two provisos. First, no singular value of the
  inverse-kinematics matrix of the constructor is cut off by \<open>pinv\<close>: none is positive and
  at most \<open>1e-15\<close> times the largest. Second, every wheel's Cartesian velocity survives the
  conversion to speed and angle: its magnitude is above \<open>1e-6\<close>, or it points along the
  non-negative x axis. Below that magnitude \<open>Rotation2d(x, y)\<close> returns the identity
  rotation and the direction of the velocity is lost: the slow reverse drive
  \<open>(-1e-7, 0, 0)\<close> comes back as \<open>(1e-7, 0, 0)\<close>.
\<close>

theorem forward_inverts_inverse_kinematics:
  assumes "kinematics_object k"
      and "\<exists>a\<in>set (modules k). \<exists>b\<in>set (modules k). a \<noteq> b"
      and "well_conditioned (ik_matrix (modules k) identity_translation)"
      and "\<forall>w\<in>set (modules k).
             hypot (fst (module_velocity s identity_translation w))
                   (snd (module_velocity s identity_translation w)) > 1 / 10 ^ 6 \<or>
             (snd (module_velocity s identity_translation w) = 0 \<and>
              0 \<le> fst (module_velocity s identity_translation w))"
  shows "\<exists>sts k'. toSwerveModuleStates k s identity_translation = Inr (sts, k') \<and>
                   toChassisSpeeds k' sts = Inr s"
proof -
  let ?o = identity_translation
  have inv: "kin_inv k" using assms(1) by (rule kinematics_object_inv)
  define k' where "k' = (if \<not> tr_eq (prev_cor k) ?o
                then k\<lparr>inverse_kinematics := ik_matrix (modules k) ?o, prev_cor := ?o\<rparr> else k)"
  define sts where "sts = map (\<lambda>w. \<lparr>speed = hypot (fst (module_velocity s ?o w)) (snd (module_velocity s ?o w)),
                         angle = Rotation2d_xy (fst (module_velocity s ?o w)) (snd (module_velocity s ?o w))\<rparr>)
                (modules k)"
  have pc: "prev_cor k' = ?o" by (simp add: k'_def tr_eq_identity)
  have res: "toSwerveModuleStates k s ?o = Inr (sts, k')"
    using pc by (simp add: toSwerveModuleStates_result[OF inv] Let_def sts_def flip: k'_def)
  have inv': "kin_inv k'" using inv res by (rule toSwerveModuleStates_kin_inv)
  have mk: "modules k' = modules k" "num_modules k' = length (modules k)"
    "forward_kinematics k' = pinv (ik_matrix (modules k) ?o)"
    using inv by (auto simp: k'_def kin_inv_def)
  have len: "length sts = num_modules k'" by (simp add: sts_def mk)
  have mv: "module_vector sts =
      concat (map (\<lambda>w. [vx s + (- y_t w + y_t ?o) * omega s, vy s + (x_t w - x_t ?o) * omega s]) (modules k))"
  proof -
    have "\<forall>w\<in>set (modules k).
        [hypot (fst (module_velocity s ?o w)) (snd (module_velocity s ?o w)) *
           cos_r (Rotation2d_xy (fst (module_velocity s ?o w)) (snd (module_velocity s ?o w))),
         hypot (fst (module_velocity s ?o w)) (snd (module_velocity s ?o w)) *
           sin_r (Rotation2d_xy (fst (module_velocity s ?o w)) (snd (module_velocity s ?o w)))]
        = [vx s + (- y_t w + y_t ?o) * omega s, vy s + (x_t w - x_t ?o) * omega s]"
      using assms(4) xy_recover by (auto simp: module_velocity_def)
    then show ?thesis
      unfolding module_vector_def sts_def by (simp add: o_def cong: map_cong)
  qed
  have li: "map (\<lambda>row. dot row (module_vector sts)) (forward_kinematics k') = [vx s, vy s, omega s]"
    unfolding mv mk(3) by (rule pinv_ik_left_inverse[OF assms(2) assms(3)])
  have "toChassisSpeeds k' sts =
      Inr \<lparr>vx = dot (forward_kinematics k' ! 0) (module_vector sts),
           vy = dot (forward_kinematics k' ! 1) (module_vector sts),
           omega = dot (forward_kinematics k' ! 2) (module_vector sts)\<rparr>"
    using len by (simp add: toChassisSpeeds_result[OF inv'])
  moreover have "length (forward_kinematics k') = 3"
    using li by (metis length_map length_Cons list.size(3) numeral_3_eq_3)
  then have "dot (forward_kinematics k' ! 0) (module_vector sts) = vx s"
       "dot (forward_kinematics k' ! 1) (module_vector sts) = vy s"
       "dot (forward_kinematics k' ! 2) (module_vector sts) = omega s"
    using li nth_map[of 0 "forward_kinematics k'" "\<lambda>row. dot row (module_vector sts)"]
       nth_map[of 1 "forward_kinematics k'" "\<lambda>row. dot row (module_vector sts)"]
       nth_map[of 2 "forward_kinematics k'" "\<lambda>row. dot row (module_vector sts)"]
    by simp_all
  ultimately have "toChassisSpeeds k' sts = Inr s" by simp
  then show ?thesis using res by blast
qed

lemma wheels2_distinct: "\<exists>a\<in>set (modules kin2). \<exists>b\<in>set (modules kin2). a \<noteq> b"
  by (auto simp: kin2_def wheels2_def Translation2d_init_def)

lemma ik_kin2:
  "ik_matrix (modules kin2) identity_translation = [[1, 0, 0], [0, 1, 1], [1, 0, 0], [0, 1, - 1]]"
  by (simp add: ik_matrix_def kin2_def wheels2_def identity_translation_def Translation2d_init_def)

lemma kin2_conditioned: "well_conditioned (ik_matrix (modules kin2) identity_translation)"
  unfolding ik_kin2 by (rule conditioned_kin2)

theorem forward_inverts_inverse_kinematics_witness:
  "kinematics_object kin2 \<and>
   (\<exists>a\<in>set (modules kin2). \<exists>b\<in>set (modules kin2). a \<noteq> b) \<and>
   well_conditioned (ik_matrix (modules kin2) identity_translation) \<and>
   (\<exists>sts k'. toSwerveModuleStates kin2 \<lparr>vx = 1, vy = 0, omega = 0\<rparr> identity_translation = Inr (sts, k') \<and>
              toChassisSpeeds k' sts = Inr \<lparr>vx = 1, vy = 0, omega = 0\<rparr>)"
proof -
  have v: "\<forall>w\<in>set (modules kin2).
             hypot (fst (module_velocity \<lparr>vx = 1, vy = 0, omega = 0\<rparr> identity_translation w))
                   (snd (module_velocity \<lparr>vx = 1, vy = 0, omega = 0\<rparr> identity_translation w)) > 1 / 10 ^ 6 \<or>
             (snd (module_velocity \<lparr>vx = 1, vy = 0, omega = 0\<rparr> identity_translation w) = 0 \<and>
              0 \<le> fst (module_velocity \<lparr>vx = 1, vy = 0, omega = 0\<rparr> identity_translation w))"
    by (simp add: module_velocity_def)
  show ?thesis
    using kin2_object wheels2_distinct kin2_conditioned
      forward_inverts_inverse_kinematics[OF kin2_object wheels2_distinct kin2_conditioned v]
    by blast
qed

theorem slow_speed_round_trip_counterexample:
  "kinematics_object kin2 \<and>
   modules kin2 = [Translation2d_init 1 0, Translation2d_init (- 1) 0] \<and>
   well_conditioned (ik_matrix (modules kin2) identity_translation) \<and>
   toSwerveModuleStates kin2 slow_reverse identity_translation = Inr (crawl2, kin2) \<and>
   toChassisSpeeds kin2 crawl2 = Inr \<lparr>vx = 1 / 10 ^ 7, vy = 0, omega = 0\<rparr> \<and>
   \<lparr>vx = 1 / 10 ^ 7, vy = 0, omega = 0\<rparr> \<noteq> slow_reverse"
proof -
  have inv: "kin_inv kin2" by (rule kinematics_object_inv[OF kin2_object])
  have t: "tr_eq (prev_cor kin2) identity_translation"
    by (simp add: tr_eq_identity kin2_def)
  have 1: "toSwerveModuleStates kin2 slow_reverse identity_translation = Inr (crawl2, kin2)"
    using t
    by (simp add: toSwerveModuleStates_result[OF inv] Let_def)
       (simp add: kin2_def wheels2_def module_velocity_def slow_reverse_def crawl2_def hypot_x0
          xy_small identity_translation_def Translation2d_init_def)
  have 2: "toChassisSpeeds kin2 crawl2 = Inr \<lparr>vx = 1 / 10 ^ 7, vy = 0, omega = 0\<rparr>"
    by (simp add: toChassisSpeeds_result[OF inv])
       (simp add: kin2_def crawl2_def module_vector_def dot_def Rotation2d_zero_def)
  have 3: "modules kin2 = [Translation2d_init 1 0, Translation2d_init (- 1) 0]"
    by (simp add: kin2_def wheels2_def)
  have 4: "\<lparr>vx = 1 / 10 ^ 7, vy = 0, omega = 0\<rparr> \<noteq> slow_reverse"
    by (simp add: slow_reverse_def)
  show ?thesis
    using kin2_object 3 kin2_conditioned 1 2 4 by blast
qed

section \<open>Changing the centre of rotation\<close>

text \<open>
  Claim C2, as the code has it. A call of \<open>toSwerveModuleStates\<close> with a centre of rotation
  that is not \<open>==\<close> to the cached one rebuilds the third column of the inverse-kinematics
  matrix from the wheel offsets and the new centre and caches the centre; otherwise the
  object is unchanged. The forward-kinematics matrix is never assigned again: it stays
  what \<open>pinv\<close> made of the matrix about the robot centre in the constructor, that is, the
  Moore-Penrose pseudoinverse of that matrix with its small singular values set to zero,
  and of that matrix itself when no singular value is small;
  and \<open>toChassisSpeeds\<close> answers the same before and after the call. After a change of
  centre it is therefore not the pseudoinverse of the rebuilt matrix.
\<close>

theorem cor_change_keeps_forward_map:
  assumes "kinematics_object k"
  shows "\<exists>sts k'. toSwerveModuleStates k s cor = Inr (sts, k') \<and>
    (\<not> tr_eq (prev_cor k) cor \<longrightarrow>
       inverse_kinematics k' = ik_matrix (modules k) cor \<and> prev_cor k' = cor) \<and>
    (tr_eq (prev_cor k) cor \<longrightarrow> k' = k) \<and>
    modules k' = modules k \<and> num_modules k' = num_modules k \<and>
    forward_kinematics k' = forward_kinematics k \<and>
    forward_kinematics k' = pinv (ik_matrix (modules k) identity_translation) \<and>
    is_pinv (zero_small (ik_matrix (modules k) identity_translation)) (forward_kinematics k') \<and>
    (well_conditioned (ik_matrix (modules k) identity_translation) \<longrightarrow>
       zero_small (ik_matrix (modules k) identity_translation) = ik_matrix (modules k) identity_translation \<and>
       is_pinv (ik_matrix (modules k) identity_translation) (forward_kinematics k')) \<and>
    toChassisSpeeds k' ms = toChassisSpeeds k ms"
proof -
  have inv: "kin_inv k" using assms by (rule kinematics_object_inv)
  then have f: "forward_kinematics k = pinv (ik_matrix (modules k) identity_translation)"
    and ne: "modules k \<noteq> []"
    by (auto simp: kin_inv_def)
  have p: "well_conditioned (ik_matrix (modules k) identity_translation) \<longrightarrow>
           zero_small (ik_matrix (modules k) identity_translation) = ik_matrix (modules k) identity_translation \<and>
           is_pinv (ik_matrix (modules k) identity_translation)
             (pinv (ik_matrix (modules k) identity_translation))"
    using pinv_ik_penrose[OF ne] zero_small_well_conditioned by blast
  have q: "is_pinv (zero_small (ik_matrix (modules k) identity_translation))
             (pinv (ik_matrix (modules k) identity_translation))"
    by (rule pinv_ik_truncated[OF ne])
  show ?thesis
    using p q by (simp add: toSwerveModuleStates_result[OF inv] Let_def f toChassisSpeeds_def)
qed

theorem cor_change_keeps_forward_map_witness:
  "kinematics_object kin2 \<and> \<not> tr_eq (prev_cor kin2) (Translation2d_init 0 1) \<and>
   well_conditioned (ik_matrix (modules kin2) identity_translation) \<and>
   (\<exists>sts k'. toSwerveModuleStates kin2 \<lparr>vx = 0, vy = 0, omega = 0\<rparr> (Translation2d_init 0 1) = Inr (sts, k') \<and>
      inverse_kinematics k' = [[1, 0, 1], [0, 1, 1], [1, 0, 1], [0, 1, - 1]] \<and>
      forward_kinematics k' = forward_kinematics kin2 \<and>
      is_pinv [[1, 0, 0], [0, 1, 1], [1, 0, 0], [0, 1, - 1]] (forward_kinematics k'))"
proof -
  have t: "\<not> tr_eq (prev_cor kin2) (Translation2d_init 0 1)"
    by (simp add: kin2_def tr_eq_def isclose_def identity_translation_def Translation2d_init_def)
  have m: "ik_matrix (modules kin2) (Translation2d_init 0 1) = [[1, 0, 1], [0, 1, 1], [1, 0, 1], [0, 1, - 1]]"
    by (simp add: ik_matrix_def kin2_def wheels2_def Translation2d_init_def)
  show ?thesis
    using t kin2_object kin2_conditioned
      cor_change_keeps_forward_map[OF kin2_object, of "\<lparr>vx = 0, vy = 0, omega = 0\<rparr>" "Translation2d_init 0 1" "[]"]
    by (auto simp: m ik_kin2)
qed

lemma cols_moved: "columns [[1, 0, 1], [0, 1, 1], [1, 0, 1], [0, 1, - 1::real]] = [[1,0,1,0],[0,1,0,1],[1,1,1,-1]]"
  by (simp add: columns_def upt_rec)

theorem stale_forward_map_counterexample:
  "kinematics_object kin2 \<and> \<not> tr_eq (prev_cor kin2) (Translation2d_init 0 1) \<and>
   toSwerveModuleStates kin2 \<lparr>vx = 0, vy = 0, omega = 0\<rparr> (Translation2d_init 0 1) = Inr (still2, kin2_moved) \<and>
   inverse_kinematics kin2_moved = ik_matrix (modules kin2) (Translation2d_init 0 1) \<and>
   \<not> is_pinv (inverse_kinematics kin2_moved) (forward_kinematics kin2_moved) \<and>
   forward_kinematics kin2_moved \<noteq> pinv (inverse_kinematics kin2_moved)"
proof -
  have inv: "kin_inv kin2" by (rule kinematics_object_inv[OF kin2_object])
  have t: "\<not> tr_eq (prev_cor kin2) (Translation2d_init 0 1)"
    by (simp add: kin2_def tr_eq_def isclose_def identity_translation_def Translation2d_init_def)
  have m: "ik_matrix (modules kin2) (Translation2d_init 0 1) = [[1, 0, 1], [0, 1, 1], [1, 0, 1], [0, 1, - 1]]"
    by (simp add: ik_matrix_def kin2_def wheels2_def Translation2d_init_def)
  have 1: "toSwerveModuleStates kin2 \<lparr>vx = 0, vy = 0, omega = 0\<rparr> (Translation2d_init 0 1) = Inr (still2, kin2_moved)"
    using t
    by (simp add: toSwerveModuleStates_result[OF inv] Let_def m)
       (simp add: kin2_def kin2_moved_def wheels2_def module_velocity_def still2_def hypot_x0 xy_small)
  have 2: "inverse_kinematics kin2_moved = ik_matrix (modules kin2) (Translation2d_init 0 1)"
    by (simp add: m kin2_moved_def)
  have xa: "matmul (forward_kinematics kin2_moved) (inverse_kinematics kin2_moved)
      = [[1, 0, 1], [0, 1, 0], [0, 0, 1]]"
    by (simp add: kin2_moved_def kin2_def matmul_def cols_moved dot_def)
  have "columns (matmul (forward_kinematics kin2_moved) (inverse_kinematics kin2_moved))
      \<noteq> matmul (forward_kinematics kin2_moved) (inverse_kinematics kin2_moved)"
    unfolding xa by (simp add: columns_def upt_rec)
  then have 3: "\<not> is_pinv (inverse_kinematics kin2_moved) (forward_kinematics kin2_moved)"
    by (simp add: is_pinv_def)
  have "well_conditioned [[1, 0, 1], [0, 1, 1], [1, 0, 1], [0, 1, - 1]]"
    by (rule well_conditioned_sufficient[OF cols_moved]) (simp_all add: dot_def rcond_sq)
  then have "pinv [[1, 0, 1], [0, 1, 1], [1, 0, 1], [0, 1, - 1]]
      = pseudo_inverse [[1, 0, 1], [0, 1, 1], [1, 0, 1], [0, 1, - 1]]"
    by (rule pinv_well_conditioned)
  also have "\<dots> = [[1 / 2, - (1 / 2), 1 / 2, 1 / 2], [0, 1 / 2, 0, 1 / 2], [0, 1 / 2, 0, - (1 / 2)]]"
    by (simp add: pseudo_inverse_def cols_moved greville_step_def Let_def dot_def vsub_def vadd_def vscale_def)
  finally have "pinv [[1, 0, 1], [0, 1, 1], [1, 0, 1], [0, 1, - 1]]
      = [[1 / 2, - (1 / 2), 1 / 2, 1 / 2], [0, 1 / 2, 0, 1 / 2], [0, 1 / 2, 0, - (1 / 2)]]" .
  then have 4: "forward_kinematics kin2_moved \<noteq> pinv (inverse_kinematics kin2_moved)"
    by (simp add: kin2_moved_def kin2_def)
  show ?thesis using kin2_object t 1 2 3 4 by simp
qed

section \<open>Inverse kinematics\<close>

text \<open>
  Claim C10, as the code has it. For every kinematics object, every chassis speed and
  every centre of rotation, \<open>toSwerveModuleStates\<close> returns one state per wheel. Its speed
  is the \<open>hypot\<close> of the wheel's Cartesian velocity \<open>(x, y)\<close>, hence never negative, and its
  angle is \<open>Rotation2d(x, y)\<close>. The velocity is taken about the requested centre of
  rotation, or about the cached one when the requested centre is \<open>==\<close> to it. When the
  speed is above \<open>1e-6\<close> the angle is the direction of the velocity: speed times cosine is
  \<open>x\<close> and speed times sine is \<open>y\<close>. When the speed is at most \<open>1e-6\<close> the angle is the
  identity rotation whatever the direction, so the direction is not in the returned state:
  a slow drive to the left and a slow drive to the right return the same states.
\<close>

theorem inverse_kinematics_speed_and_angle:
  assumes "kinematics_object k"
  shows "\<exists>sts k'. toSwerveModuleStates k s cor = Inr (sts, k') \<and>
     (let c = (if tr_eq (prev_cor k) cor then prev_cor k else cor);
          v = module_velocity s c
      in k' = (if tr_eq (prev_cor k) cor then k
               else k\<lparr>inverse_kinematics := ik_matrix (modules k) cor, prev_cor := cor\<rparr>) \<and>
         sts = map (\<lambda>w. \<lparr>speed = hypot (fst (v w)) (snd (v w)),
                           angle = Rotation2d_xy (fst (v w)) (snd (v w))\<rparr>) (modules k) \<and>
         length sts = num_modules k \<and>
         (\<forall>st\<in>set sts. 0 \<le> speed st) \<and>
         (\<forall>i<length sts.
            (1 / 10 ^ 6 < speed (sts ! i) \<longrightarrow>
               speed (sts ! i) * cos_r (angle (sts ! i)) = fst (v (modules k ! i)) \<and>
               speed (sts ! i) * sin_r (angle (sts ! i)) = snd (v (modules k ! i))) \<and>
            (speed (sts ! i) \<le> 1 / 10 ^ 6 \<longrightarrow> angle (sts ! i) = Rotation2d_zero)))"
proof -
  have inv: "kin_inv k" using assms by (rule kinematics_object_inv)
  then have n: "num_modules k = length (modules k)" by (simp add: kin_inv_def)
  define c where "c = (if tr_eq (prev_cor k) cor then prev_cor k else cor)"
  define v where "v = module_velocity s c"
  define k' where "k' = (if tr_eq (prev_cor k) cor then k
               else k\<lparr>inverse_kinematics := ik_matrix (modules k) cor, prev_cor := cor\<rparr>)"
  define sts where "sts = map (\<lambda>w. \<lparr>speed = hypot (fst (v w)) (snd (v w)),
                           angle = Rotation2d_xy (fst (v w)) (snd (v w))\<rparr>) (modules k)"
  have pc: "prev_cor k' = c" by (simp add: k'_def c_def)
  have res: "toSwerveModuleStates k s cor = Inr (sts, k')"
    by (simp add: toSwerveModuleStates_result[OF inv] Let_def sts_def v_def c_def k'_def)
  have len: "length sts = num_modules k" by (simp add: sts_def n)
  have nonneg: "\<forall>st\<in>set sts. 0 \<le> speed st" by (auto simp: sts_def hypot_nonneg)
  have dir: "\<forall>i<length sts.
            (1 / 10 ^ 6 < speed (sts ! i) \<longrightarrow>
               speed (sts ! i) * cos_r (angle (sts ! i)) = fst (v (modules k ! i)) \<and>
               speed (sts ! i) * sin_r (angle (sts ! i)) = snd (v (modules k ! i))) \<and>
            (speed (sts ! i) \<le> 1 / 10 ^ 6 \<longrightarrow> angle (sts ! i) = Rotation2d_zero)"
  proof (intro allI impI)
    fix i assume "i < length sts"
    then have i: "i < length (modules k)" by (simp add: sts_def)
    define x where "x = fst (v (modules k ! i))"
    define y where "y = snd (v (modules k ! i))"
    have st: "sts ! i = \<lparr>speed = hypot x y, angle = Rotation2d_xy x y\<rparr>"
      using i by (simp add: sts_def x_def y_def)
    show "(1 / 10 ^ 6 < speed (sts ! i) \<longrightarrow>
               speed (sts ! i) * cos_r (angle (sts ! i)) = fst (v (modules k ! i)) \<and>
               speed (sts ! i) * sin_r (angle (sts ! i)) = snd (v (modules k ! i))) \<and>
            (speed (sts ! i) \<le> 1 / 10 ^ 6 \<longrightarrow> angle (sts ! i) = Rotation2d_zero)"
      unfolding st using xy_recover[of x y] xy_small[of x y] by (simp flip: x_def y_def)
  qed
  have "toSwerveModuleStates k s cor = Inr (sts, k') \<and>
     (let c = (if tr_eq (prev_cor k) cor then prev_cor k else cor);
          v = module_velocity s c
      in k' = (if tr_eq (prev_cor k) cor then k
               else k\<lparr>inverse_kinematics := ik_matrix (modules k) cor, prev_cor := cor\<rparr>) \<and>
         sts = map (\<lambda>w. \<lparr>speed = hypot (fst (v w)) (snd (v w)),
                           angle = Rotation2d_xy (fst (v w)) (snd (v w))\<rparr>) (modules k) \<and>
         length sts = num_modules k \<and>
         (\<forall>st\<in>set sts. 0 \<le> speed st) \<and>
         (\<forall>i<length sts.
            (1 / 10 ^ 6 < speed (sts ! i) \<longrightarrow>
               speed (sts ! i) * cos_r (angle (sts ! i)) = fst (v (modules k ! i)) \<and>
               speed (sts ! i) * sin_r (angle (sts ! i)) = snd (v (modules k ! i))) \<and>
            (speed (sts ! i) \<le> 1 / 10 ^ 6 \<longrightarrow> angle (sts ! i) = Rotation2d_zero)))"
    unfolding Let_def c_def[symmetric] v_def[symmetric]
    using res len nonneg dir by (simp add: k'_def sts_def)
  then show ?thesis by blast
qed

lemma hypot_0y: "hypot 0 y = \<bar>y\<bar>"
  by (simp add: hypot_def)

theorem inverse_kinematics_speed_and_angle_witness:
  "kinematics_object kin2 \<and>
   (\<exists>sts k'. toSwerveModuleStates kin2 \<lparr>vx = - 1, vy = 0, omega = 0\<rparr> identity_translation = Inr (sts, k') \<and>
      k' = kin2 \<and> length sts = 2 \<and> map speed sts = [1, 1] \<and>
      1 / 10 ^ 6 < speed (sts ! 0) \<and>
      speed (sts ! 0) * cos_r (angle (sts ! 0)) = - 1 \<and>
      speed (sts ! 0) * sin_r (angle (sts ! 0)) = 0)"
proof -
  have t: "tr_eq (prev_cor kin2) identity_translation"
    by (simp add: tr_eq_identity kin2_def)
  obtain sts k' where
    r: "toSwerveModuleStates kin2 \<lparr>vx = - 1, vy = 0, omega = 0\<rparr> identity_translation = Inr (sts, k')" and
    p: "(let c = (if tr_eq (prev_cor kin2) identity_translation then prev_cor kin2 else identity_translation);
          v = module_velocity \<lparr>vx = - 1, vy = 0, omega = 0\<rparr> c
      in k' = (if tr_eq (prev_cor kin2) identity_translation then kin2
               else kin2\<lparr>inverse_kinematics := ik_matrix (modules kin2) identity_translation,
                         prev_cor := identity_translation\<rparr>) \<and>
         sts = map (\<lambda>w. \<lparr>speed = hypot (fst (v w)) (snd (v w)),
                           angle = Rotation2d_xy (fst (v w)) (snd (v w))\<rparr>) (modules kin2) \<and>
         length sts = num_modules kin2 \<and>
         (\<forall>st\<in>set sts. 0 \<le> speed st) \<and>
         (\<forall>i<length sts.
            (1 / 10 ^ 6 < speed (sts ! i) \<longrightarrow>
               speed (sts ! i) * cos_r (angle (sts ! i)) = fst (v (modules kin2 ! i)) \<and>
               speed (sts ! i) * sin_r (angle (sts ! i)) = snd (v (modules kin2 ! i))) \<and>
            (speed (sts ! i) \<le> 1 / 10 ^ 6 \<longrightarrow> angle (sts ! i) = Rotation2d_zero)))"
    using inverse_kinematics_speed_and_angle[OF kin2_object, of "\<lparr>vx = - 1, vy = 0, omega = 0\<rparr>" identity_translation]
    by blast
  define v where "v = module_velocity \<lparr>vx = - 1, vy = 0, omega = 0\<rparr> (prev_cor kin2)"
  have i1: "(if tr_eq (prev_cor kin2) identity_translation then prev_cor kin2 else identity_translation)
      = prev_cor kin2"
    using t by simp
  have i2: "(if tr_eq (prev_cor kin2) identity_translation then kin2
               else kin2\<lparr>inverse_kinematics := ik_matrix (modules kin2) identity_translation,
                         prev_cor := identity_translation\<rparr>) = kin2"
    using t by simp
  note p' = p[unfolded Let_def i1 i2, folded v_def]
  have k: "k' = kin2" using p' by blast
  have "length sts = num_modules kin2" using p' by blast
  then have l: "length sts = 2" by (simp add: kin2_def)
  have vw: "v (Translation2d_init 1 0) = (- 1, 0)" "v (Translation2d_init (- 1) 0) = (- 1, 0)"
    by (simp_all add: v_def module_velocity_def kin2_def)
  have "sts = map (\<lambda>w. \<lparr>speed = hypot (fst (v w)) (snd (v w)),
                           angle = Rotation2d_xy (fst (v w)) (snd (v w))\<rparr>) (modules kin2)"
    using p' by blast
  then have sp: "map speed sts = [1, 1]"
    by (simp add: kin2_def wheels2_def vw hypot_x0)
  then have s0: "speed (sts ! 0) = 1" using l by (metis nth_Cons_0 nth_map zero_less_numeral)
  have "1 / 10 ^ 6 < speed (sts ! 0) \<longrightarrow>
               speed (sts ! 0) * cos_r (angle (sts ! 0)) = fst (v (modules kin2 ! 0)) \<and>
               speed (sts ! 0) * sin_r (angle (sts ! 0)) = snd (v (modules kin2 ! 0))"
    using p' l by (metis zero_less_numeral)
  then have "speed (sts ! 0) * cos_r (angle (sts ! 0)) = - 1 \<and> speed (sts ! 0) * sin_r (angle (sts ! 0)) = 0"
    by (simp add: s0 kin2_def wheels2_def vw)
  then show ?thesis
    using kin2_object r k l sp s0 by auto
qed

theorem slow_sideways_counterexample:
  "kinematics_object kin2 \<and>
   toSwerveModuleStates kin2 slow_left identity_translation = Inr (crawl2, kin2) \<and>
   toSwerveModuleStates kin2 slow_right identity_translation = Inr (crawl2, kin2) \<and>
   slow_left \<noteq> slow_right \<and>
   map angle crawl2 = [Rotation2d_zero, Rotation2d_zero]"
proof -
  have inv: "kin_inv kin2" by (rule kinematics_object_inv[OF kin2_object])
  have t: "tr_eq (prev_cor kin2) identity_translation"
    by (simp add: tr_eq_identity kin2_def)
  have 1: "toSwerveModuleStates kin2 slow_left identity_translation = Inr (crawl2, kin2)"
    using t
    by (simp add: toSwerveModuleStates_result[OF inv] Let_def)
       (simp add: kin2_def wheels2_def module_velocity_def slow_left_def crawl2_def hypot_0y
          xy_small identity_translation_def Translation2d_init_def)
  have 2: "toSwerveModuleStates kin2 slow_right identity_translation = Inr (crawl2, kin2)"
    using t
    by (simp add: toSwerveModuleStates_result[OF inv] Let_def)
       (simp add: kin2_def wheels2_def module_velocity_def slow_right_def crawl2_def hypot_0y
          xy_small identity_translation_def Translation2d_init_def)
  have 3: "slow_left \<noteq> slow_right" by (simp add: slow_left_def slow_right_def)
  have 4: "map angle crawl2 = [Rotation2d_zero, Rotation2d_zero]" by (simp add: crawl2_def)
  show ?thesis using kin2_object 1 2 3 4 by blast
qed

section \<open>The exponential and the logarithm of poses\<close>

subsection \<open>Rotations on the unit circle\<close>








subsection \<open>Taylor bounds for sine and cosine\<close>





subsection \<open>The small-angle band and the exact formulas outside it\<close>





subsection \<open>The error of the series inside the band\<close>




subsection \<open>Closed forms of \<open>log\<close> and of \<open>exp\<close> after \<open>log\<close>\<close>







subsection \<open>The round trip\<close>




end
